theory Spec2Isabelle
  imports Complex_Main "HOL-Library.Multiset"
begin

section \<open>Data model of \<^verbatim>\<open>bot.py\<close>\<close>

text \<open>
  Model identifiers and message texts are Python strings. A message is the dict
  \<^verbatim>\<open>{"role": ..., "content": ...}\<close>; a conversation is the list
  \<^verbatim>\<open>st.session_state.messages\<close>.
\<close>

type_synonym model_id = string

record message =
  role :: string
  content :: string

type_synonym conversation = "message list"

definition default_reference_models :: "model_id list" where
  "default_reference_models =
     [''Qwen/Qwen2-72B-Instruct'',
      ''Qwen/Qwen1.5-110B-Chat'',
      ''Qwen/Qwen1.5-72B'',
      ''meta-llama/Llama-3-70b-chat-hf'',
      ''meta-llama/Meta-Llama-3-70B'',
      ''microsoft/WizardLM-2-8x22B'',
      ''mistralai/Mixtral-8x22B'']"

definition newline :: string where
  "newline = [CHR 0x0A]"

definition default_system_prompt :: string where
  "default_system_prompt =
     ''You are an AI assistant named MoA, powered by a Mixture of Agents architecture. '' @ newline @
     ''Your role is to provide helpful, accurate, and ethical responses to user queries. '' @ newline @
     ''You have access to multiple language models and can leverage their combined knowledge to generate comprehensive answers. '' @ newline @
     ''Always strive to be respectful, avoid harmful content, and admit when you'' @ [CHR 0x27] @
     ''re unsure about something.''"

text \<open>
  The exceptions of class \<^verbatim>\<open>Exception\<close> that the turn can meet: the two that the
  streaming loop itself raises, and whatever a model call raises (with its text).
\<close>

datatype exn = TypeError | IndexError | CallError string

fun exn_str :: "exn \<Rightarrow> string" where
  "exn_str TypeError =
     ''can only concatenate str (not '' @ [CHR 0x22] @ ''NoneType'' @ [CHR 0x22] @ '') to str''"
| "exn_str IndexError = ''list index out of range''"
| "exn_str (CallError msg) = msg"

section \<open>\<^verbatim>\<open>SharedValue\<close>\<close>

text \<open>
  \<^verbatim>\<open>
  class SharedValue:
      def __init__(self, initial_value=0.0):
          self.value = initial_value
          self.lock = threading.Lock()
      def set(self, new_value):
          with self.lock:
              self.value = new_value
      def get(self):
          with self.lock:
              return self.value
  \<close>
  The lock is a \<^verbatim>\<open>threading.Lock\<close>: it is locked or not, and has no owner. The
  \<^verbatim>\<open>with\<close> statement acquires it, runs the body and releases it. Run by one thread
  alone, acquiring a lock that is held never returns: \<open>None\<close>.
\<close>

record 'v SharedValue =
  sv_value :: 'v
  lock :: bool

definition SharedValue_init :: "'v \<Rightarrow> 'v SharedValue" where
  "SharedValue_init initial_value = \<lparr>sv_value = initial_value, lock = False\<rparr>"

definition acquire :: "'v SharedValue \<Rightarrow> 'v SharedValue option" where
  "acquire sv = (if lock sv then None else Some (sv\<lparr>lock := True\<rparr>))"

definition release :: "'v SharedValue \<Rightarrow> 'v SharedValue" where
  "release sv = sv\<lparr>lock := False\<rparr>"

definition sv_set :: "'v \<Rightarrow> 'v SharedValue \<Rightarrow> 'v SharedValue option" where
  "sv_set new_value sv =
     (case acquire sv of
        None \<Rightarrow> None
      | Some held \<Rightarrow> Some (release (held\<lparr>sv_value := new_value\<rparr>)))"

definition sv_get :: "'v SharedValue \<Rightarrow> ('v \<times> 'v SharedValue) option" where
  "sv_get sv =
     (case acquire sv of
        None \<Rightarrow> None
      | Some held \<Rightarrow> Some (sv_value held, release held))"

section \<open>The working set of reference models\<close>

text \<open>
  \<^verbatim>\<open>
  selected_models = list(set(st.session_state.selected_models) - set([model]))
  if not selected_models:
      selected_models = [model]  # Use main model if no other models are selected
  \<close>
  A Python set is modelled as a duplicate-free list, its elements in the order of their
  first insertion. \<^verbatim>\<open>list(s)\<close> enumerates a set in the order of its hash table, which
  the language leaves open and which, for strings, changes with the hash seed of the
  process: the order is the parameter \<open>slot\<close>, the position a string's hash gives it
  (elements of equal slot keep their insertion order).
\<close>

definition py_set :: "'a list \<Rightarrow> 'a list" where
  "py_set xs = rev (remdups (rev xs))"

definition py_set_difference :: "'a list \<Rightarrow> 'a list \<Rightarrow> 'a list" where
  "py_set_difference s t = filter (\<lambda>x. x \<notin> set t) s"

definition py_list_of_set :: "('a \<Rightarrow> nat) \<Rightarrow> 'a list \<Rightarrow> 'a list" where
  "py_list_of_set slot s = sort_key slot s"

definition select_models :: "(model_id \<Rightarrow> nat) \<Rightarrow> model_id list \<Rightarrow> model_id \<Rightarrow> model_id list" where
  "select_models slot selected model =
     (let selected_models =
            py_list_of_set slot (py_set_difference (py_set selected) (py_set [model]))
      in if selected_models = [] then [model] else selected_models)"


section \<open>Model calls\<close>

text \<open>
  \<^verbatim>\<open>generate_with_references\<close> and \<^verbatim>\<open>generate_together_stream\<close> are imported from
  \<^verbatim>\<open>utils\<close>; what they answer is a parameter of the model (\<open>backend\<close>). A call gets the
  keyword arguments of the source; it returns or raises. With the default
  \<^verbatim>\<open>generate_fn\<close> the answer is the output text, with
  \<^verbatim>\<open>generate_fn=generate_together_stream\<close> it is a stream of chunks.
\<close>

record request =
  req_model :: model_id
  req_messages :: conversation
  req_references :: "string list"
  req_temperature :: real
  req_max_tokens :: int

text \<open>
  A chunk is read as \<^verbatim>\<open>chunk.choices[0].delta.content\<close>: \<open>choices\<close> lists, for each
  choice of the chunk, its \<^verbatim>\<open>delta.content\<close>, a string or \<^verbatim>\<open>None\<close>. A stream is a
  generator: it yields a chunk and goes on, or ends, or raises.
\<close>

datatype chunk = Chunk (choices: "string option list")

datatype stream = StreamEnd | StreamYield chunk stream | StreamRaise exn

record backend =
  generate :: "request \<Rightarrow> exn + string"
  generate_stream :: "request \<Rightarrow> exn + stream"

section \<open>What a turn does, as a trace\<close>

text \<open>
  The calls a turn makes on its collaborators, in the order it makes them: the timer
  thread, the model calls, the calls on the shared elapsed time, and what it shows.
\<close>

datatype 'v sv_call = CallSet 'v | CallGet

datatype event =
    TimerStart
  | CompletionCall request
  | FinishedQuerying model_id
  | Progress
  | ElapsedTimeCall "real sv_call"
  | Aggregating
  | StreamCall request
  | Placeholder string
  | TotalElapsed
  | ErrorNotice string
  | LogError string
  | StopEventSet
  | TimerJoin

section \<open>The fan-out to the reference models\<close>

text \<open>
  \<^verbatim>\<open>
  data = {
      "instruction": [st.session_state.messages for _ in range(len(selected_models))],
      "references": [[] for _ in range(len(selected_models))],
      "model": selected_models,
  }
  eval_set = datasets.Dataset.from_dict(data)
  \<close>
  A dataset is the list of its rows.
\<close>

record dataset_row =
  instruction :: conversation
  references :: "string list"
  row_model :: model_id

definition from_dict :: "conversation list \<Rightarrow> string list list \<Rightarrow> model_id list \<Rightarrow> dataset_row list" where
  "from_dict instruction_col references_col model_col =
     map (\<lambda>(i, r, m). \<lparr>instruction = i, references = r, row_model = m\<rparr>)
       (zip instruction_col (zip references_col model_col))"

definition eval_set_of :: "conversation \<Rightarrow> model_id list \<Rightarrow> dataset_row list" where
  "eval_set_of messages selected_models =
     from_dict (replicate (length selected_models) messages)
               (replicate (length selected_models) [])
               selected_models"

text \<open>
  \<^verbatim>\<open>
  def process_fn(item, temperature=0.5, max_tokens=2048):
      references = item.get("references", [])
      model = item["model"]
      messages = item["instruction"]
      output = generate_with_references(model=model, messages=messages,
          references=references, temperature=temperature, max_tokens=max_tokens)
      ...
      st.write(f"Finished querying {model}.")
      return {"output": output}
  \<close>
  (the logging under \<^verbatim>\<open>DEBUG\<close> is left out).
\<close>

definition process_fn :: "backend \<Rightarrow> real \<Rightarrow> int \<Rightarrow> dataset_row \<Rightarrow> event list \<times> (exn + string)" where
  "process_fn be temperature max_tokens item =
     (let req = \<lparr>req_model = row_model item, req_messages = instruction item,
                 req_references = references item,
                 req_temperature = temperature, req_max_tokens = max_tokens\<rparr>
      in case generate be req of
           Inl e \<Rightarrow> ([CompletionCall req], Inl e)
         | Inr output \<Rightarrow> ([CompletionCall req, FinishedQuerying (row_model item)], Inr output))"

text \<open>
  \<^verbatim>\<open>eval_set.map(partial(process_fn, ...), batched=False, num_proc=len(selected_models))\<close>
  gives every row to a worker process of its own, so every row's call is made. The map
  returns the outputs in the order of the rows, or raises when a worker raised (of
  several failures, the one of the first row in the model). The workers run at the same
  time: the order in which their calls and notices fall among each other is open, and
  the trace lists them row by row, which is one of the orders possible. Each worker's
  own events keep their order, and nothing below rests on the order between workers.
\<close>

fun collect :: "(exn + 'a) list \<Rightarrow> exn + 'a list" where
  "collect [] = Inr []"
| "collect (Inl e # rs) = Inl e"
| "collect (Inr x # rs) = (case collect rs of Inl e \<Rightarrow> Inl e | Inr xs \<Rightarrow> Inr (x # xs))"

definition dataset_map :: "('r \<Rightarrow> event list \<times> (exn + 'a)) \<Rightarrow> 'r list \<Rightarrow> event list \<times> (exn + 'a list)" where
  "dataset_map f rows =
     (let results = map f rows
      in (concat (map fst results), collect (map snd results)))"

section \<open>The aggregator's stream\<close>

text \<open>
  \<^verbatim>\<open>
  full_response = ""
  for chunk in output:
      full_response += chunk.choices[0].delta.content
      message_placeholder.markdown(full_response + cursor)
      timer_placeholder.markdown(f"... {elapsed_time.get():.2f} seconds ...")
  \<close>
  \<^verbatim>\<open>choices[0]\<close> of an empty list raises \<^verbatim>\<open>IndexError\<close>; adding \<^verbatim>\<open>None\<close> to a string
  raises \<^verbatim>\<open>TypeError\<close>.
\<close>

definition delta_content :: "chunk \<Rightarrow> exn + string option" where
  "delta_content c = (case choices c of [] \<Rightarrow> Inl IndexError | x # _ \<Rightarrow> Inr x)"

definition add_str :: "string \<Rightarrow> string option \<Rightarrow> exn + string" where
  "add_str s x = (case x of None \<Rightarrow> Inl TypeError | Some t \<Rightarrow> Inr (s @ t))"

fun accumulate :: "string \<Rightarrow> stream \<Rightarrow> event list \<times> (exn + string)" where
  "accumulate full_response StreamEnd = ([], Inr full_response)"
| "accumulate full_response (StreamRaise e) = ([], Inl e)"
| "accumulate full_response (StreamYield c output) =
     (case delta_content c of
        Inl e \<Rightarrow> ([], Inl e)
      | Inr x \<Rightarrow>
          (case add_str full_response x of
             Inl e \<Rightarrow> ([], Inl e)
           | Inr full_response' \<Rightarrow>
               (let (evs, r) = accumulate full_response' output
                in (Placeholder full_response' # ElapsedTimeCall CallGet # evs, r))))"

section \<open>The turn\<close>

text \<open>
  The body of the \<^verbatim>\<open>try\<close> statement (lines 263 to 306). The loop
  \<^verbatim>\<open>for i_round in range(1)\<close> runs its body once; the dataset it rebuilds from the
  outputs at the end of the round is not read again. The body returns the conversation
  with the assistant's message appended, or the exception raised.
\<close>

definition reference_request :: "real \<Rightarrow> int \<Rightarrow> conversation \<Rightarrow> model_id \<Rightarrow> request" where
  "reference_request temperature max_tokens messages m =
     \<lparr>req_model = m, req_messages = messages, req_references = [],
      req_temperature = temperature, req_max_tokens = max_tokens\<rparr>"

definition aggregation_request :: "model_id \<Rightarrow> real \<Rightarrow> int \<Rightarrow> conversation \<Rightarrow> string list \<Rightarrow> request" where
  "aggregation_request model temperature max_tokens messages refs =
     \<lparr>req_model = model, req_messages = messages, req_references = refs,
      req_temperature = temperature, req_max_tokens = max_tokens\<rparr>"

definition fan_out :: "backend \<Rightarrow> real \<Rightarrow> int \<Rightarrow> conversation \<Rightarrow> model_id list \<Rightarrow> event list \<times> (exn + string list)" where
  "fan_out be temperature max_tokens messages selected_models =
     dataset_map (process_fn be temperature max_tokens) (eval_set_of messages selected_models)"

definition try_body :: "backend \<Rightarrow> model_id \<Rightarrow> real \<Rightarrow> int \<Rightarrow> conversation \<Rightarrow> model_id list \<Rightarrow> event list \<times> (exn + conversation)" where
  "try_body be model temperature max_tokens messages selected_models =
     (case fan_out be temperature max_tokens messages selected_models of
        (evs1, Inl e) \<Rightarrow> (evs1, Inl e)
      | (evs1, Inr refs) \<Rightarrow>
          (let req = aggregation_request model temperature max_tokens messages refs;
               before = evs1 @ [Progress, ElapsedTimeCall CallGet, Aggregating, StreamCall req]
           in case generate_stream be req of
                Inl e \<Rightarrow> (before, Inl e)
              | Inr output \<Rightarrow>
                  (case accumulate [] output of
                     (evs2, Inl e) \<Rightarrow> (before @ evs2, Inl e)
                   | (evs2, Inr full_response) \<Rightarrow>
                       (before @ evs2 @ [Placeholder full_response, TotalElapsed],
                        Inr (messages @ [\<lparr>role = ''assistant'', content = full_response\<rparr>])))))"

text \<open>
  The response generation of \<^verbatim>\<open>main\<close> (lines 240 to 313), run on the conversation
  that already holds the user's prompt: start the timer thread, choose the working
  models, run the \<^verbatim>\<open>try\<close> body;
  \<^verbatim>\<open>
  except Exception as e:
      st.error(f"An error occurred during the generation process: {str(e)}")
      logger.error(f"Generation error: {str(e)}")
  finally:
      stop_event.set()
      timer_thread.join()
  \<close>
\<close>

record turn =
  turn_messages :: conversation
  turn_error :: "exn option"
  turn_trace :: "event list"

definition finally_block :: "event list" where
  "finally_block = [StopEventSet, TimerJoin]"

definition except_block :: "exn \<Rightarrow> event list" where
  "except_block e =
     [ErrorNotice (''An error occurred during the generation process: '' @ exn_str e),
      LogError (''Generation error: '' @ exn_str e)]"

definition generate_response ::
  "(model_id \<Rightarrow> nat) \<Rightarrow> backend \<Rightarrow> model_id list \<Rightarrow> model_id \<Rightarrow> real \<Rightarrow> int \<Rightarrow> conversation \<Rightarrow> turn" where
  "generate_response slot be selected model temperature max_tokens messages =
     (let selected_models = select_models slot selected model
      in case try_body be model temperature max_tokens messages selected_models of
           (evs, Inr messages') \<Rightarrow>
             \<lparr>turn_messages = messages', turn_error = None,
              turn_trace = TimerStart # evs @ finally_block\<rparr>
         | (evs, Inl e) \<Rightarrow>
             \<lparr>turn_messages = messages, turn_error = Some e,
              turn_trace = TimerStart # evs @ except_block e @ finally_block\<rparr>)"

text \<open>What the claims speak of: the chunks a stream yields and the text of each.\<close>

fun stream_chunks :: "stream \<Rightarrow> chunk list" where
  "stream_chunks StreamEnd = []"
| "stream_chunks (StreamRaise e) = []"
| "stream_chunks (StreamYield c output) = c # stream_chunks output"

fun stream_raises :: "stream \<Rightarrow> bool" where
  "stream_raises StreamEnd = False"
| "stream_raises (StreamRaise e) = True"
| "stream_raises (StreamYield c output) = stream_raises output"

definition fragment :: "chunk \<Rightarrow> string" where
  "fragment c = (case choices c of Some t # _ \<Rightarrow> t | _ \<Rightarrow> [])"

definition is_text :: "chunk \<Rightarrow> bool" where
  "is_text c = (case choices c of Some t # _ \<Rightarrow> True | _ \<Rightarrow> False)"

definition content_is_None :: "chunk \<Rightarrow> bool" where
  "content_is_None c = (case choices c of None # _ \<Rightarrow> True | _ \<Rightarrow> False)"

section \<open>What the claims speak of\<close>

text \<open>The completion calls of a trace (the calls \<^verbatim>\<open>process_fn\<close> makes), in order.\<close>

fun completion_calls :: "event list \<Rightarrow> request list" where
  "completion_calls [] = []"
| "completion_calls (CompletionCall r # evs) = r # completion_calls evs"
| "completion_calls (ev # evs) = completion_calls evs"

text \<open>The calls a trace makes on the shared elapsed time.\<close>

fun elapsed_time_calls :: "event list \<Rightarrow> real sv_call list" where
  "elapsed_time_calls [] = []"
| "elapsed_time_calls (ElapsedTimeCall c # evs) = c # elapsed_time_calls evs"
| "elapsed_time_calls (ev # evs) = elapsed_time_calls evs"

text \<open>
  A reference model's call fails when the backend raises on its request; the
  aggregator's streaming call fails when the backend raises on the call or the stream
  raises later.
\<close>

definition reference_call_fails :: "backend \<Rightarrow> real \<Rightarrow> int \<Rightarrow> conversation \<Rightarrow> model_id list \<Rightarrow> bool" where
  "reference_call_fails be temperature max_tokens messages selected_models =
     list_ex (\<lambda>m. isl (generate be (reference_request temperature max_tokens messages m)))
       selected_models"

definition aggregator_call_fails :: "backend \<Rightarrow> request \<Rightarrow> bool" where
  "aggregator_call_fails be req =
     (case generate_stream be req of Inl e \<Rightarrow> True | Inr output \<Rightarrow> stream_raises output)"

text \<open>
  The request a run presents to the aggregator (none when the fan-out failed): the
  argument of the one \<open>StreamCall\<close>.
\<close>

definition presented_request ::
  "(model_id \<Rightarrow> nat) \<Rightarrow> backend \<Rightarrow> model_id list \<Rightarrow> model_id \<Rightarrow> real \<Rightarrow> int \<Rightarrow> conversation \<Rightarrow> request option" where
  "presented_request slot be selected model temperature max_tokens messages =
     (case fan_out be temperature max_tokens messages (select_models slot selected model) of
        (evs, Inl e) \<Rightarrow> None
      | (evs, Inr refs) \<Rightarrow> Some (aggregation_request model temperature max_tokens messages refs))"

text \<open>
  A concrete turn: the conversation is the system message and \<^verbatim>\<open>Hello\<close>, the selected
  models are \<^verbatim>\<open>M1\<close> and \<^verbatim>\<open>M2\<close>, the aggregator is \<^verbatim>\<open>M3\<close>; \<^verbatim>\<open>M1\<close> answers
  \<^verbatim>\<open>Hi\<close>, every other model \<^verbatim>\<open>Hey\<close>.
\<close>

definition hello_conversation :: conversation where
  "hello_conversation =
     [\<lparr>role = ''system'', content = ''You are MoA.''\<rparr>, \<lparr>role = ''user'', content = ''Hello''\<rparr>]"

definition hi_hey :: "request \<Rightarrow> exn + string" where
  "hi_hey req = (if req_model req = ''M1'' then Inr ''Hi'' else Inr ''Hey'')"

definition hello_stream :: stream where
  "hello_stream = StreamYield (Chunk [Some ''Hel'']) (StreamYield (Chunk [Some ''lo!'']) StreamEnd)"

definition hello_backend :: backend where
  "hello_backend = \<lparr>generate = hi_hey, generate_stream = (\<lambda>req. Inr hello_stream)\<rparr>"

text \<open>The same, with \<^verbatim>\<open>M2\<close>'s call raising.\<close>

definition m2_down :: "request \<Rightarrow> exn + string" where
  "m2_down req = (if req_model req = ''M2'' then Inl (CallError ''M2 is down'') else Inr ''Hi'')"

definition m2_down_backend :: backend where
  "m2_down_backend = \<lparr>generate = m2_down, generate_stream = (\<lambda>req. Inr hello_stream)\<rparr>"

text \<open>The same, with the stream raising after its first fragment.\<close>

definition broken_stream :: stream where
  "broken_stream = StreamYield (Chunk [Some ''Hel'']) (StreamRaise (CallError ''connection lost''))"

definition broken_stream_backend :: backend where
  "broken_stream_backend = \<lparr>generate = hi_hey, generate_stream = (\<lambda>req. Inr broken_stream)\<rparr>"

text \<open>The same, with a last chunk whose content is \<^verbatim>\<open>None\<close>.\<close>

definition none_stream :: stream where
  "none_stream = StreamYield (Chunk [Some ''Hel'']) (StreamYield (Chunk [None]) StreamEnd)"

definition none_stream_backend :: backend where
  "none_stream_backend = \<lparr>generate = hi_hey, generate_stream = (\<lambda>req. Inr none_stream)\<rparr>"

text \<open>Two ways a process may order strings in a set.\<close>

definition slot_short_first :: "model_id \<Rightarrow> nat" where
  "slot_short_first m = length m"

definition slot_long_first :: "model_id \<Rightarrow> nat" where
  "slot_long_first m = 100 - length m"

definition echo :: "request \<Rightarrow> exn + string" where
  "echo req = Inr (''answer of '' @ req_model req)"

definition echo_backend :: backend where
  "echo_backend = \<lparr>generate = echo, generate_stream = (\<lambda>req. Inr hello_stream)\<rparr>"

text \<open>
  Two presented requests agree up to the order of the reference outputs: both runs
  failed before the aggregation, or both present the same model, conversation and
  parameters, and the same reference outputs as a multiset.
\<close>

definition same_up_to_order :: "request option \<Rightarrow> request option \<Rightarrow> bool" where
  "same_up_to_order p q =
     (case (p, q) of
        (None, None) \<Rightarrow> True
      | (Some r1, Some r2) \<Rightarrow>
          req_model r1 = req_model r2 \<and> req_messages r1 = req_messages r2 \<and>
          req_temperature r1 = req_temperature r2 \<and> req_max_tokens r1 = req_max_tokens r2 \<and>
          mset (req_references r1) = mset (req_references r2)
      | _ \<Rightarrow> False)"

text \<open>
  The same turn, with a stream whose first chunk has no choice and whose second chunk
  has the content \<^verbatim>\<open>None\<close>.
\<close>

definition no_choice_stream :: stream where
  "no_choice_stream = StreamYield (Chunk []) (StreamYield (Chunk [None]) StreamEnd)"

definition no_choice_backend :: backend where
  "no_choice_backend = \<lparr>generate = hi_hey, generate_stream = (\<lambda>req. Inr no_choice_stream)\<rparr>"

section \<open>The timer thread\<close>

text \<open>
  \<^verbatim>\<open>
  def run_timer(stop_event, elapsed_time):
      start_time = time.time()
      while not stop_event.is_set():
          elapsed_time.set(time.time() - start_time)
          time.sleep(0.1)
  \<close>
  What the thread meets is given from outside: the first reading of \<^verbatim>\<open>time.time()\<close>,
  and then, for each test of the loop condition, either that the event is set
  (\<open>Stopped\<close>) or that it is not, with the next reading of the clock (\<open>Running\<close>).
  \<^verbatim>\<open>time.time()\<close> is the wall clock, a float; a reading is a real number here. The
  thread's trace is its calls on the shared value; it returns (\<open>True\<close>) when it meets
  \<open>Stopped\<close>, and is still in the loop (\<open>False\<close>) when the observations end before.
\<close>

datatype observation = Stopped | Running real

fun timer_loop :: "real \<Rightarrow> observation list \<Rightarrow> real sv_call list \<times> bool" where
  "timer_loop start_time [] = ([], False)"
| "timer_loop start_time (Stopped # obs) = ([], True)"
| "timer_loop start_time (Running now # obs) =
     (let (calls, returned) = timer_loop start_time obs
      in (CallSet (now - start_time) # calls, returned))"

definition run_timer :: "real \<Rightarrow> observation list \<Rightarrow> real sv_call list \<times> bool" where
  "run_timer first_reading obs = (let start_time = first_reading in timer_loop start_time obs)"

text \<open>The values a list of calls writes, and the clock readings the loop takes.\<close>

fun written :: "'v sv_call list \<Rightarrow> 'v list" where
  "written [] = []"
| "written (CallSet v # calls) = v # written calls"
| "written (CallGet # calls) = written calls"

fun readings :: "observation list \<Rightarrow> real list" where
  "readings [] = []"
| "readings (Stopped # obs) = []"
| "readings (Running now # obs) = now # readings obs"

section \<open>Threads calling the shared value\<close>

text \<open>
  Several threads call \<^verbatim>\<open>set\<close> and \<^verbatim>\<open>get\<close> on one \<^verbatim>\<open>SharedValue\<close>, each running its
  own list of calls. A call takes three steps: entering the \<^verbatim>\<open>with\<close> statement
  acquires the lock (while the lock is held the thread waits), the body writes or
  reads \<^verbatim>\<open>self.value\<close>, leaving the \<^verbatim>\<open>with\<close> statement releases the lock. A schedule
  names the thread that takes the next step; a thread that waits, or has no call left,
  does nothing in its step. The history lists the accesses to the value in the order
  they happen.
\<close>

datatype position = Outside | Entered | Accessed

record 'v thread =
  calls :: "'v sv_call list"
  position :: position
  returned :: "'v list"

datatype 'v access = Wrote 'v | Read 'v

record 'v system =
  cell :: "'v SharedValue"
  threads :: "'v thread list"
  history :: "(nat \<times> 'v access) list"

definition enter :: "nat \<Rightarrow> 'v thread \<Rightarrow> 'v system \<Rightarrow> 'v system" where
  "enter i t s =
     (case acquire (cell s) of
        None \<Rightarrow> s
      | Some held \<Rightarrow> s\<lparr>cell := held, threads := (threads s)[i := t\<lparr>position := Entered\<rparr>]\<rparr>)"

definition body :: "nat \<Rightarrow> 'v thread \<Rightarrow> 'v sv_call \<Rightarrow> 'v system \<Rightarrow> 'v system" where
  "body i t c s =
     (case c of
        CallSet new_value \<Rightarrow>
          s\<lparr>cell := (cell s)\<lparr>sv_value := new_value\<rparr>,
            threads := (threads s)[i := t\<lparr>position := Accessed\<rparr>],
            history := history s @ [(i, Wrote new_value)]\<rparr>
      | CallGet \<Rightarrow>
          s\<lparr>threads := (threads s)[i := t\<lparr>position := Accessed,
                                             returned := returned t @ [sv_value (cell s)]\<rparr>],
            history := history s @ [(i, Read (sv_value (cell s)))]\<rparr>)"

definition leave :: "nat \<Rightarrow> 'v thread \<Rightarrow> 'v sv_call list \<Rightarrow> 'v system \<Rightarrow> 'v system" where
  "leave i t rest s =
     s\<lparr>cell := release (cell s),
       threads := (threads s)[i := t\<lparr>position := Outside, calls := rest\<rparr>]\<rparr>"

definition thread_step :: "nat \<Rightarrow> 'v system \<Rightarrow> 'v system" where
  "thread_step i s =
     (if length (threads s) \<le> i then s
      else let t = threads s ! i
           in case calls t of
                [] \<Rightarrow> s
              | c # rest \<Rightarrow>
                  (case position t of
                     Outside \<Rightarrow> enter i t s
                   | Entered \<Rightarrow> body i t c s
                   | Accessed \<Rightarrow> leave i t rest s))"

fun run :: "nat list \<Rightarrow> 'v system \<Rightarrow> 'v system" where
  "run [] s = s"
| "run (i # schedule) s = run schedule (thread_step i s)"

definition start :: "'v \<Rightarrow> 'v sv_call list list \<Rightarrow> 'v system" where
  "start initial_value programs =
     \<lparr>cell = SharedValue_init initial_value,
      threads = map (\<lambda>cs. \<lparr>calls = cs, position = Outside, returned = []\<rparr>) programs,
      history = []\<rparr>"

text \<open>
  What the claim speaks of. The latest value written before the end of a history (the
  initial value when nothing was written); every read of a history returns the latest
  value written before it; the reads of one thread; at most one thread is inside a
  \<^verbatim>\<open>with\<close> statement, and the lock is held exactly when one is.
\<close>

fun latest :: "'v \<Rightarrow> (nat \<times> 'v access) list \<Rightarrow> 'v" where
  "latest cur [] = cur"
| "latest cur ((i, Wrote v) # h) = latest v h"
| "latest cur ((i, Read v) # h) = latest cur h"

fun reads_latest :: "'v \<Rightarrow> (nat \<times> 'v access) list \<Rightarrow> bool" where
  "reads_latest cur [] = True"
| "reads_latest cur ((i, Wrote v) # h) = reads_latest v h"
| "reads_latest cur ((i, Read v) # h) = (v = cur \<and> reads_latest cur h)"

fun reads_of :: "nat \<Rightarrow> (nat \<times> 'v access) list \<Rightarrow> 'v list" where
  "reads_of i [] = []"
| "reads_of i ((j, Wrote v) # h) = reads_of i h"
| "reads_of i ((j, Read v) # h) = (if j = i then v # reads_of i h else reads_of i h)"

definition inside :: "'v system \<Rightarrow> nat \<Rightarrow> bool" where
  "inside s i = (i < length (threads s) \<and> position (threads s ! i) \<noteq> Outside)"

definition mutual_exclusion :: "'v system \<Rightarrow> bool" where
  "mutual_exclusion s =
     ((\<forall>i j. inside s i \<and> inside s j \<longrightarrow> i = j) \<and> (lock (cell s) \<longleftrightarrow> (\<exists>i. inside s i)))"

definition returns_reads :: "'v system \<Rightarrow> bool" where
  "returns_reads s =
     (\<forall>i < length (threads s). returned (threads s ! i) = reads_of i (history s))"

text \<open>All of it together, for a system started with the value \<open>v0\<close>.\<close>

definition consistent :: "'v \<Rightarrow> 'v system \<Rightarrow> bool" where
  "consistent v0 s =
     (reads_latest v0 (history s) \<and> sv_value (cell s) = latest v0 (history s) \<and>
      mutual_exclusion s \<and> returns_reads s)"

text \<open>
  A concrete run: thread 0 sets 1 and then 2, thread 1 gets twice; in the third step
  thread 1 finds the lock held and waits.
\<close>

definition two_programs :: "real sv_call list list" where
  "two_programs = [[CallSet 1, CallSet 2], [CallGet, CallGet]]"

definition a_schedule :: "nat list" where
  "a_schedule = [0, 0, 1, 0, 1, 1, 1, 0, 0, 0, 1, 1, 1]"

section \<open>The timer thread beside the turn's thread\<close>

text \<open>
  The two threads of a turn, step by step. The turn's thread makes the events of its
  trace one after the other: \<^verbatim>\<open>timer_thread.start()\<close> starts the timer thread,
  \<^verbatim>\<open>stop_event.set()\<close> sets the event, \<^verbatim>\<open>timer_thread.join()\<close> waits until the timer
  thread has returned. The timer thread runs \<^verbatim>\<open>run_timer\<close>: it reads the clock for
  \<^verbatim>\<open>start_time\<close>, and then passes through the loop, testing the event, setting the
  elapsed time, and sleeping for the polling interval of 0.1 s. One pass of the loop is
  one polling interval. The \<open>n\<close>-th reading of the clock by the timer thread is
  \<open>clock n\<close>. A schedule names the thread that takes the next step; a thread that
  waits or has returned does nothing in its step.
\<close>

datatype timer_at = NotStarted | AtStart | AtTest | AtSet | AtSleep | Returned

datatype thread_id = TimerThread | TurnThread

record machine =
  m_stop_event :: bool
  m_timer :: timer_at
  m_start :: real
  m_taken :: nat
  m_met :: "observation list"
  m_calls :: "real sv_call list"
  m_controller :: "event list"

definition timer_step :: "(nat \<Rightarrow> real) \<Rightarrow> machine \<Rightarrow> machine" where
  "timer_step clock s =
     (case m_timer s of
        NotStarted \<Rightarrow> s
      | AtStart \<Rightarrow> s\<lparr>m_start := clock (m_taken s), m_taken := Suc (m_taken s), m_timer := AtTest\<rparr>
      | AtTest \<Rightarrow>
          (if m_stop_event s
           then s\<lparr>m_met := m_met s @ [Stopped], m_timer := Returned\<rparr>
           else s\<lparr>m_timer := AtSet\<rparr>)
      | AtSet \<Rightarrow>
          (let now = clock (m_taken s)
           in s\<lparr>m_taken := Suc (m_taken s),
                m_met := m_met s @ [Running now],
                m_calls := m_calls s @ [CallSet (now - m_start s)],
                m_timer := AtSleep\<rparr>)
      | AtSleep \<Rightarrow> s\<lparr>m_timer := AtTest\<rparr>
      | Returned \<Rightarrow> s)"

definition turn_step :: "machine \<Rightarrow> machine" where
  "turn_step s =
     (case m_controller s of
        [] \<Rightarrow> s
      | ev # evs \<Rightarrow>
          (if ev = TimerStart
           then s\<lparr>m_timer := (if m_timer s = NotStarted then AtStart else m_timer s),
                  m_controller := evs\<rparr>
           else if ev = StopEventSet then s\<lparr>m_stop_event := True, m_controller := evs\<rparr>
           else if ev = TimerJoin
           then (if m_timer s = Returned then s\<lparr>m_controller := evs\<rparr> else s)
           else s\<lparr>m_controller := evs\<rparr>))"

fun run_machine :: "(nat \<Rightarrow> real) \<Rightarrow> thread_id list \<Rightarrow> machine \<Rightarrow> machine" where
  "run_machine clock [] s = s"
| "run_machine clock (TimerThread # schedule) s = run_machine clock schedule (timer_step clock s)"
| "run_machine clock (TurnThread # schedule) s = run_machine clock schedule (turn_step s)"

definition machine_of :: "event list \<Rightarrow> machine" where
  "machine_of trace =
     \<lparr>m_stop_event = False, m_timer = NotStarted, m_start = 0, m_taken = 0,
      m_met = [], m_calls = [], m_controller = trace\<rparr>"

text \<open>
  The steps the timer thread still takes before it returns, once the event is set and
  the thread is started; and the invariant that ties the machine to the trace it runs:
  what the turn's thread has done, the machine shows.
\<close>

fun steps_left :: "timer_at \<Rightarrow> nat" where
  "steps_left NotStarted = 3"
| "steps_left AtStart = 2"
| "steps_left AtTest = 1"
| "steps_left AtSet = 3"
| "steps_left AtSleep = 2"
| "steps_left Returned = 0"

definition follows :: "event list \<Rightarrow> machine \<Rightarrow> bool" where
  "follows trace s =
     (\<exists>done. trace = done @ m_controller s \<and>
        (m_stop_event s \<longleftrightarrow> StopEventSet \<in> set done) \<and>
        (TimerJoin \<in> set done \<longrightarrow> m_timer s = Returned) \<and>
        (m_timer s \<noteq> NotStarted \<longleftrightarrow> TimerStart \<in> set done))"

text \<open>
  The timer thread of the machine does what \<open>run_timer\<close> does on the observations it
  has met: its calls are those of \<open>run_timer\<close>, and it has returned exactly when
  \<open>run_timer\<close> returns.
\<close>

definition runs_timer :: "machine \<Rightarrow> bool" where
  "runs_timer s =
     (m_calls s = fst (run_timer (m_start s) (m_met s)) \<and>
      (m_timer s = Returned \<longleftrightarrow> snd (run_timer (m_start s) (m_met s))) \<and>
      (m_timer s = NotStarted \<or> m_timer s = AtStart \<longrightarrow> m_met s = []))"

text \<open>The machine of a turn, after a schedule.\<close>

definition turn_machine ::
  "(nat \<Rightarrow> real) \<Rightarrow> thread_id list \<Rightarrow> (model_id \<Rightarrow> nat) \<Rightarrow> backend \<Rightarrow> model_id list \<Rightarrow>
     model_id \<Rightarrow> real \<Rightarrow> int \<Rightarrow> conversation \<Rightarrow> machine" where
  "turn_machine clock schedule slot be selected model temperature max_tokens messages =
     run_machine clock schedule
       (machine_of (turn_trace
          (generate_response slot be selected model temperature max_tokens messages)))"

text \<open>A concrete run: a clock that advances by one second per reading, and a schedule.\<close>

definition second_clock :: "nat \<Rightarrow> real" where
  "second_clock n = 100 + real n"

definition until_signal :: "thread_id list" where
  "until_signal =
     [TurnThread, TimerThread, TimerThread, TimerThread] @ replicate 14 TurnThread @
     [TimerThread, TimerThread, TurnThread]"

definition after_signal :: "thread_id list" where
  "after_signal = [TurnThread, TimerThread, TimerThread, TimerThread, TurnThread]"

section \<open>The session state, with its objects\<close>

text \<open>
  \<^verbatim>\<open>st.session_state\<close> holds references: \<^verbatim>\<open>messages\<close> is a list object whose elements
  are message dicts, and every saved conversation holds a list object of its own. Lists
  and dicts live in a store, at addresses; a list object is the list of the addresses
  of its elements. A fresh object takes the next address.
\<close>

type_synonym addr = nat

record session =
  store_dicts :: "addr \<Rightarrow> message"
  store_lists :: "addr \<Rightarrow> addr list"
  fresh :: addr
  ss_messages :: addr
  ss_conversations :: "(string \<times> addr) list"
  ss_user_system_prompt :: string

definition new_dict :: "message \<Rightarrow> session \<Rightarrow> addr \<times> session" where
  "new_dict m s = (fresh s, s\<lparr>store_dicts := (store_dicts s)(fresh s := m), fresh := Suc (fresh s)\<rparr>)"

definition new_list :: "addr list \<Rightarrow> session \<Rightarrow> addr \<times> session" where
  "new_list l s = (fresh s, s\<lparr>store_lists := (store_lists s)(fresh s := l), fresh := Suc (fresh s)\<rparr>)"

text \<open>
  The initial session state (lines 83 to 93):
  \<^verbatim>\<open>st.session_state.messages = [{"role": "system", "content": default_system_prompt}]\<close>,
  no saved conversation, an empty \<^verbatim>\<open>user_system_prompt\<close>.
\<close>

definition init_session :: session where
  "init_session =
     \<lparr>store_dicts = (\<lambda>a. \<lparr>role = ''system'', content = default_system_prompt\<rparr>),
      store_lists = (\<lambda>a. [])(1 := [0]),
      fresh = 2,
      ss_messages = 1,
      ss_conversations = [],
      ss_user_system_prompt = []\<rparr>"

text \<open>
  \<^verbatim>\<open>
  if st.button("Update System Instructions"):
      st.session_state.user_system_prompt = user_prompt
      combined_prompt = f"{default_system_prompt}\n\nAdditional instructions: {user_prompt}"
      st.session_state.messages[0]["content"] = combined_prompt
  \<close>
  The assignment changes the dict that is the first element of the list, in place.
\<close>

definition combined_prompt :: "string \<Rightarrow> string" where
  "combined_prompt user_prompt =
     default_system_prompt @ newline @ newline @ ''Additional instructions: '' @ user_prompt"

definition update_system_instructions :: "string \<Rightarrow> session \<Rightarrow> exn + session" where
  "update_system_instructions user_prompt s =
     (case store_lists s (ss_messages s) of
        [] \<Rightarrow> Inl IndexError
      | a # rest \<Rightarrow>
          Inr (s\<lparr>ss_user_system_prompt := user_prompt,
                 store_dicts := (store_dicts s)
                   (a := (store_dicts s a)\<lparr>content := combined_prompt user_prompt\<rparr>)\<rparr>))"

text \<open>
  \<^verbatim>\<open>
  if st.button("Start New Conversation", key="new_conversation"):
      st.session_state.messages = [{"role": "system",
                                    "content": st.session_state.messages[0]["content"]}]
  \<close>
  A new list with a new dict.
\<close>

definition start_new_conversation :: "session \<Rightarrow> exn + session" where
  "start_new_conversation s =
     (case store_lists s (ss_messages s) of
        [] \<Rightarrow> Inl IndexError
      | a # rest \<Rightarrow>
          (let (d, s1) = new_dict \<lparr>role = ''system'', content = content (store_dicts s a)\<rparr> s;
               (l, s2) = new_list [d] s1
           in Inr (s2\<lparr>ss_messages := l\<rparr>)))"

text \<open>
  \<^verbatim>\<open>
  for idx, conv in enumerate(st.session_state.conversations):
      if st.button(...):
          st.session_state.messages = conv['messages']
  \<close>
  There is a button for each saved conversation, and no other.
\<close>

definition select_conversation :: "nat \<Rightarrow> session \<Rightarrow> session" where
  "select_conversation idx s =
     (if idx < length (ss_conversations s)
      then s\<lparr>ss_messages := snd (ss_conversations s ! idx)\<rparr>
      else s)"

text \<open>
  \<^verbatim>\<open>
  st.session_state.messages.append({"role": "user", "content": prompt})
  if len(st.session_state.messages) == 2:  # First user message
      st.session_state.conversations.append({
          "first_question": prompt,
          "messages": st.session_state.messages.copy()
      })
  \<close>
  \<^verbatim>\<open>append\<close> changes the list object in place; \<^verbatim>\<open>copy()\<close> makes a new list object
  with the same elements.
\<close>

definition append_message :: "message \<Rightarrow> session \<Rightarrow> session" where
  "append_message m s =
     (let (d, s1) = new_dict m s
      in s1\<lparr>store_lists := (store_lists s1)
               (ss_messages s1 := store_lists s1 (ss_messages s1) @ [d])\<rparr>)"

definition chat_input :: "string \<Rightarrow> session \<Rightarrow> session" where
  "chat_input prompt s =
     (let s1 = append_message \<lparr>role = ''user'', content = prompt\<rparr> s
      in if length (store_lists s1 (ss_messages s1)) = 2
         then (let (c, s2) = new_list (store_lists s1 (ss_messages s1)) s1
               in s2\<lparr>ss_conversations := ss_conversations s2 @ [(prompt, c)]\<rparr>)
         else s1)"

text \<open>What the user does, in sequence; an action that raises ends the sequence.\<close>

datatype action =
    ChatInput string
  | AssistantReply string
  | UpdateSystemInstructions string
  | StartNewConversation
  | SelectConversation nat

fun act :: "action \<Rightarrow> session \<Rightarrow> exn + session" where
  "act (ChatInput prompt) s = Inr (chat_input prompt s)"
| "act (AssistantReply full_response) s =
     Inr (append_message \<lparr>role = ''assistant'', content = full_response\<rparr> s)"
| "act (UpdateSystemInstructions user_prompt) s = update_system_instructions user_prompt s"
| "act StartNewConversation s = start_new_conversation s"
| "act (SelectConversation idx) s = Inr (select_conversation idx s)"

fun acts :: "action list \<Rightarrow> session \<Rightarrow> exn + session" where
  "acts [] s = Inr s"
| "acts (a # as) s = (case act a s of Inl e \<Rightarrow> Inl e | Inr s' \<Rightarrow> acts as s')"

text \<open>
  The messages a list object holds, and the system message (the first) of a saved
  conversation. Every address in use is below \<open>fresh\<close>.
\<close>

definition conversation_at :: "session \<Rightarrow> addr \<Rightarrow> conversation" where
  "conversation_at s l = map (store_dicts s) (store_lists s l)"

definition in_use :: "session \<Rightarrow> bool" where
  "in_use s =
     (ss_messages s < fresh s \<and>
      list_all (\<lambda>a. a < fresh s) (store_lists s (ss_messages s)) \<and>
      list_all (\<lambda>(q, c). c < fresh s \<and> list_all (\<lambda>a. a < fresh s) (store_lists s c))
        (ss_conversations s))"

text \<open>
  An update of the system instructions changes the system message of a saved
  conversation exactly when that message is the object at the head of the live
  conversation.
\<close>

definition update_reaches :: "session \<Rightarrow> session \<Rightarrow> string \<Rightarrow> addr \<Rightarrow> bool" where
  "update_reaches s s' user_prompt c =
     (case (store_lists s c, store_lists s (ss_messages s)) of
        (a # rest, b # rest') \<Rightarrow>
          store_lists s' c = store_lists s c \<and>
          content (store_dicts s' a) =
            (if a = b then combined_prompt user_prompt else content (store_dicts s a))
      | _ \<Rightarrow> True)"

text \<open>
  A concrete session: a first question, then \<^verbatim>\<open>Start New Conversation\<close>, then an
  update of the system instructions.
\<close>

definition ask_restart_update :: "action list" where
  "ask_restart_update =
     [ChatInput ''What is MoA?'', StartNewConversation, UpdateSystemInstructions ''Be brief'']"

section \<open>Properties of the working set\<close>

lemma set_py_difference:
  "set (py_list_of_set slot (py_set_difference (py_set selected) (py_set [model])))
     = set selected - {model}"
  by (auto simp: py_list_of_set_def py_set_difference_def py_set_def)

lemma distinct_py_difference:
  "distinct (py_list_of_set slot (py_set_difference (py_set selected) (py_set [model])))"
  by (simp add: py_list_of_set_def py_set_difference_def py_set_def)

lemma set_select_models:
  "set (select_models slot selected model) =
     (if set selected - {model} = {} then {model} else set selected - {model})"
proof -
  let ?l = "py_list_of_set slot (py_set_difference (py_set selected) (py_set [model]))"
  have s: "set ?l = set selected - {model}"
    by (rule set_py_difference)
  show ?thesis
  proof (cases "?l = []")
    case True
    with s have "set selected - {model} = {}" by simp
    with True show ?thesis by (simp add: select_models_def)
  next
    case False
    with s have "set selected - {model} \<noteq> {}" by (metis set_empty)
    with False s show ?thesis by (simp add: select_models_def Let_def)
  qed
qed

lemma distinct_select_models: "distinct (select_models slot selected model)"
  using distinct_py_difference [of slot selected model]
  by (simp add: select_models_def Let_def)

lemma select_models_nonempty: "select_models slot selected model \<noteq> []"
  by (simp add: select_models_def Let_def)


text \<open>
  Claim C1: for every non-empty selected set \<open>R\<close> and aggregator \<open>a\<close>, the working
  set used for the fan-out is \<open>R - {a}\<close>, and whenever \<open>R - {a}\<close> is empty it is the
  singleton \<open>{a}\<close> instead (the fallback of the source).
\<close>

theorem select_models_working_set:
  assumes "selected \<noteq> []"
  shows "(set selected - {model} \<noteq> {} \<longrightarrow>
            set (select_models slot selected model) = set selected - {model}) \<and>
         (set selected - {model} = {} \<longrightarrow>
            set (select_models slot selected model) = {model})"
  by (simp add: set_select_models)

theorem select_models_working_set_witness:
  "default_reference_models \<noteq> [] \<and>
   set (select_models length default_reference_models ''Qwen/Qwen2-72B-Instruct'')
     = set (tl default_reference_models) \<and>
   set (select_models length [''Qwen/Qwen1.5-72B''] ''Qwen/Qwen1.5-72B'') = {''Qwen/Qwen1.5-72B''}"
proof -
  have ne: "default_reference_models \<noteq> []"
    by (simp add: default_reference_models_def)
  have d: "set default_reference_models - {''Qwen/Qwen2-72B-Instruct''}
             = set (tl default_reference_models)"
    by (simp add: default_reference_models_def)
  have "set (select_models length default_reference_models ''Qwen/Qwen2-72B-Instruct'')
          = set (tl default_reference_models)"
    using select_models_working_set [OF ne, of "''Qwen/Qwen2-72B-Instruct''" length] d
    by (simp add: default_reference_models_def)
  moreover have "set (select_models length [''Qwen/Qwen1.5-72B''] ''Qwen/Qwen1.5-72B'')
          = {''Qwen/Qwen1.5-72B''}"
    using select_models_working_set [of "[''Qwen/Qwen1.5-72B'']" "''Qwen/Qwen1.5-72B''" length]
    by simp
  ultimately show ?thesis using ne by simp
qed

section \<open>The streaming loop\<close>

lemma accumulate_text:
  "choices c = Some t # xs \<Longrightarrow>
     accumulate acc (StreamYield c s) =
       (Placeholder (acc @ t) # ElapsedTimeCall CallGet # fst (accumulate (acc @ t) s),
        snd (accumulate (acc @ t) s))"
  by (simp add: delta_content_def add_str_def split: prod.splits)

lemma accumulate_None:
  "choices c = None # xs \<Longrightarrow> accumulate acc (StreamYield c s) = ([], Inl TypeError)"
  by (simp add: delta_content_def add_str_def)

lemma accumulate_no_choice:
  "choices c = [] \<Longrightarrow> accumulate acc (StreamYield c s) = ([], Inl IndexError)"
  by (simp add: delta_content_def)

lemma is_text_iff: "is_text c \<longleftrightarrow> (\<exists>t xs. choices c = Some t # xs)"
  by (simp add: is_text_def split: list.splits option.splits)

lemma fragment_text: "choices c = Some t # xs \<Longrightarrow> fragment c = t"
  by (simp add: fragment_def)

lemma chunk_cases:
  obtains (no_choice) "choices c = []"
    | (no_content) xs where "choices c = None # xs"
    | (has_text) t xs where "choices c = Some t # xs"
proof (cases "choices c")
  case Nil
  then show ?thesis by (rule no_choice)
next
  case (Cons x xs)
  then show ?thesis by (cases x) (auto intro: no_content has_text)
qed

lemma accumulate_Inr:
  "snd (accumulate acc s) = Inr full \<Longrightarrow>
     full = acc @ concat (map fragment (stream_chunks s)) \<and>
     list_all is_text (stream_chunks s) \<and> \<not> stream_raises s"
proof (induction s arbitrary: acc)
  case StreamEnd
  then show ?case by simp
next
  case (StreamYield c s)
  show ?case
  proof (cases c rule: chunk_cases)
    case no_choice
    with StreamYield.prems show ?thesis by (simp add: accumulate_no_choice del: accumulate.simps)
  next
    case (no_content xs)
    with StreamYield.prems show ?thesis by (simp add: accumulate_None del: accumulate.simps)
  next
    case (has_text t xs)
    with StreamYield.prems have "snd (accumulate (acc @ t) s) = Inr full"
      by (simp add: accumulate_text del: accumulate.simps)
    from StreamYield.IH [OF this] has_text show ?thesis
      by (simp add: fragment_text is_text_iff)
  qed
next
  case (StreamRaise e)
  then show ?case by simp
qed

lemma accumulate_Inl:
  "\<not> list_all is_text (stream_chunks s) \<or> stream_raises s \<Longrightarrow>
     \<exists>e. snd (accumulate acc s) = Inl e"
proof (induction s arbitrary: acc)
  case StreamEnd
  then show ?case by simp
next
  case (StreamYield c s)
  show ?case
  proof (cases c rule: chunk_cases)
    case no_choice
    then show ?thesis by (simp add: accumulate_no_choice del: accumulate.simps)
  next
    case (no_content xs)
    then show ?thesis by (simp add: accumulate_None del: accumulate.simps)
  next
    case (has_text t xs)
    then have "is_text c" by (auto simp: is_text_iff)
    with StreamYield.prems
    have "\<not> list_all is_text (stream_chunks s) \<or> stream_raises s" by simp
    from StreamYield.IH [OF this, of "acc @ t"] has_text show ?thesis
      by (simp add: accumulate_text del: accumulate.simps)
  qed
next
  case (StreamRaise e)
  then show ?case by simp
qed

lemma accumulate_first_None:
  assumes "stream_chunks s = pre @ c # post" and "list_all is_text pre" and "content_is_None c"
  shows "snd (accumulate acc s) = Inl TypeError"
  using assms
proof (induction s arbitrary: acc pre)
  case StreamEnd
  then show ?case by simp
next
  case (StreamRaise e)
  then show ?case by simp
next
  case (StreamYield d s)
  show ?case
  proof (cases pre)
    case Nil
    with StreamYield.prems have "d = c" by simp
    with StreamYield.prems obtain xs where "choices d = None # xs"
      by (auto simp: content_is_None_def split: list.splits option.splits)
    then show ?thesis by (simp add: accumulate_None del: accumulate.simps)
  next
    case (Cons p ps)
    with StreamYield.prems have d: "d = p" and s: "stream_chunks s = ps @ c # post"
      and t: "is_text p" "list_all is_text ps"
      by simp_all
    from t d obtain t' xs where ch: "choices d = Some t' # xs"
      by (auto simp: is_text_iff)
    from StreamYield.IH [OF s t(2) StreamYield.prems(3), of "acc @ t'"] ch
    show ?thesis by (simp add: accumulate_text del: accumulate.simps)
  qed
qed

lemma content_is_None_not_text: "content_is_None c \<Longrightarrow> \<not> is_text c"
  by (auto simp: content_is_None_def is_text_def split: list.splits option.splits)

section \<open>The fan-out\<close>

lemma zip_replicate_rows:
  "map f (zip (replicate (length ws) a) (zip (replicate (length ws) b) ws)) =
     map (\<lambda>m. f (a, b, m)) ws"
  by (induction ws) simp_all

lemma eval_set_of_rows:
  "eval_set_of messages ws =
     map (\<lambda>m. \<lparr>instruction = messages, references = [], row_model = m\<rparr>) ws"
  by (simp add: eval_set_of_def from_dict_def zip_replicate_rows)

lemma process_fn_row:
  "process_fn be temperature max_tokens \<lparr>instruction = messages, references = [], row_model = m\<rparr> =
     (case generate be (reference_request temperature max_tokens messages m) of
        Inl e \<Rightarrow> ([CompletionCall (reference_request temperature max_tokens messages m)], Inl e)
      | Inr output \<Rightarrow>
          ([CompletionCall (reference_request temperature max_tokens messages m),
            FinishedQuerying m], Inr output))"
  by (simp add: process_fn_def reference_request_def Let_def split: sum.splits)

lemma snd_fan_out:
  "snd (fan_out be temperature max_tokens messages ws) =
     collect (map (\<lambda>m. generate be (reference_request temperature max_tokens messages m)) ws)"
proof -
  have "snd (process_fn be temperature max_tokens
               \<lparr>instruction = messages, references = [], row_model = m\<rparr>)
          = generate be (reference_request temperature max_tokens messages m)" for m
    by (simp add: process_fn_row split: sum.splits)
  then show ?thesis
    by (simp add: fan_out_def dataset_map_def eval_set_of_rows comp_def)
qed

lemma collect_map_Inr: "collect (map Inr xs) = Inr xs"
  by (induction xs) simp_all

lemma collect_Inr_D: "collect rs = Inr xs \<Longrightarrow> rs = map Inr xs"
  by (induction rs arbitrary: xs rule: collect.induct) (auto split: sum.splits)

lemma collect_Inr_iff: "collect rs = Inr xs \<longleftrightarrow> rs = map Inr xs"
  using collect_map_Inr collect_Inr_D by blast

lemma collect_Inl_iff: "(\<exists>e. collect rs = Inl e) \<longleftrightarrow> (\<exists>r \<in> set rs. isl r)"
proof (induction rs)
  case Nil
  show ?case by simp
next
  case (Cons r rs)
  then show ?case
    by (cases r) (auto split: sum.splits)
qed

section \<open>The completion calls of a turn\<close>

lemma completion_calls_append [simp]:
  "completion_calls (xs @ ys) = completion_calls xs @ completion_calls ys"
  by (induction xs rule: completion_calls.induct) simp_all

lemma completion_calls_fan_out:
  "completion_calls (fst (fan_out be temperature max_tokens messages ws)) =
     map (reference_request temperature max_tokens messages) ws"
proof -
  have "completion_calls (concat (map (\<lambda>m. fst (process_fn be temperature max_tokens
               \<lparr>instruction = messages, references = [], row_model = m\<rparr>)) ws))
         = map (reference_request temperature max_tokens messages) ws"
    by (induction ws) (simp_all add: process_fn_row split: sum.splits)
  then show ?thesis
    by (simp add: fan_out_def dataset_map_def eval_set_of_rows comp_def)
qed

lemma completion_calls_accumulate [simp]:
  "completion_calls (fst (accumulate acc s)) = []"
proof (induction s arbitrary: acc)
  case (StreamYield c s)
  show ?case
    by (cases c rule: chunk_cases)
       (simp_all add: accumulate_no_choice accumulate_None accumulate_text StreamYield.IH
          del: accumulate.simps)
qed simp_all

lemma completion_calls_try_body:
  "completion_calls (fst (try_body be model temperature max_tokens messages ws)) =
     map (reference_request temperature max_tokens messages) ws"
proof -
  obtain evs1 r1 where f: "fan_out be temperature max_tokens messages ws = (evs1, r1)"
    by (cases "fan_out be temperature max_tokens messages ws")
  then have c: "completion_calls evs1 = map (reference_request temperature max_tokens messages) ws"
    using completion_calls_fan_out [of be temperature max_tokens messages ws] by simp
  show ?thesis
  proof (cases r1)
    case (Inl e)
    with f c show ?thesis by (simp add: try_body_def)
  next
    case (Inr refs)
    let ?req = "aggregation_request model temperature max_tokens messages refs"
    show ?thesis
    proof (cases "generate_stream be ?req")
      case (Inl e)
      with f c Inr show ?thesis by (simp add: try_body_def Let_def)
    next
      case out: (Inr outp)
      obtain evs2 r2 where a: "accumulate [] outp = (evs2, r2)"
        by (cases "accumulate [] outp")
      then have "completion_calls evs2 = []"
        using completion_calls_accumulate [of "[]" outp] by simp
      with f c Inr out a show ?thesis
        by (cases r2) (simp_all add: try_body_def Let_def)
    qed
  qed
qed

lemma completion_calls_turn:
  "completion_calls (turn_trace (generate_response slot be selected model temperature max_tokens messages)) =
     map (reference_request temperature max_tokens messages) (select_models slot selected model)"
proof -
  let ?ws = "select_models slot selected model"
  obtain evs r where t: "try_body be model temperature max_tokens messages ?ws = (evs, r)"
    by (cases "try_body be model temperature max_tokens messages ?ws")
  then have "completion_calls evs = map (reference_request temperature max_tokens messages) ?ws"
    using completion_calls_try_body [of be model temperature max_tokens messages ?ws] by simp
  with t show ?thesis
    by (cases r) (simp_all add: generate_response_def Let_def finally_block_def except_block_def)
qed

lemma filter_eq_distinct:
  "distinct ws \<Longrightarrow> filter (\<lambda>x. x = m) ws = (if m \<in> set ws then [m] else [])"
  by (induction ws) auto

section \<open>The outcome of a turn\<close>

lemma snd_try_body:
  "snd (try_body be model temperature max_tokens messages ws) =
     (case snd (fan_out be temperature max_tokens messages ws) of
        Inl e \<Rightarrow> Inl e
      | Inr refs \<Rightarrow>
          (case generate_stream be (aggregation_request model temperature max_tokens messages refs) of
             Inl e \<Rightarrow> Inl e
           | Inr outp \<Rightarrow>
               (case snd (accumulate [] outp) of
                  Inl e \<Rightarrow> Inl e
                | Inr full_response \<Rightarrow>
                    Inr (messages @ [\<lparr>role = ''assistant'', content = full_response\<rparr>]))))"
  by (simp add: try_body_def Let_def split: prod.splits sum.splits)

lemma turn_error_eq:
  "turn_error (generate_response slot be selected model temperature max_tokens messages) =
     (case snd (try_body be model temperature max_tokens messages (select_models slot selected model)) of
        Inl e \<Rightarrow> Some e | Inr messages' \<Rightarrow> None)"
  by (simp add: generate_response_def Let_def split: prod.splits sum.splits)

lemma turn_messages_eq:
  "turn_messages (generate_response slot be selected model temperature max_tokens messages) =
     (case snd (try_body be model temperature max_tokens messages (select_models slot selected model)) of
        Inl e \<Rightarrow> messages | Inr messages' \<Rightarrow> messages')"
  by (simp add: generate_response_def Let_def split: prod.splits sum.splits)

lemma turn_trace_error:
  "snd (try_body be model temperature max_tokens messages (select_models slot selected model)) = Inl e \<Longrightarrow>
   ErrorNotice (''An error occurred during the generation process: '' @ exn_str e)
     \<in> set (turn_trace (generate_response slot be selected model temperature max_tokens messages))"
  by (auto simp: generate_response_def Let_def except_block_def split: prod.splits sum.splits)

lemma failed_turn:
  assumes "snd (try_body be model temperature max_tokens messages (select_models slot selected model)) = Inl e"
  shows "turn_error (generate_response slot be selected model temperature max_tokens messages) = Some e \<and>
         turn_messages (generate_response slot be selected model temperature max_tokens messages) = messages \<and>
         ErrorNotice (''An error occurred during the generation process: '' @ exn_str e)
           \<in> set (turn_trace (generate_response slot be selected model temperature max_tokens messages))"
  using assms turn_trace_error [OF assms] by (simp add: turn_error_eq turn_messages_eq)

lemma reference_call_fails_iff:
  "reference_call_fails be temperature max_tokens messages ws \<longleftrightarrow>
     (\<exists>e. snd (fan_out be temperature max_tokens messages ws) = Inl e)"
  by (auto simp: reference_call_fails_def snd_fan_out collect_Inl_iff list_ex_iff)

lemma aggregator_call_fails_D:
  assumes "aggregator_call_fails be req"
  shows "\<exists>e. (case generate_stream be req of
                 Inl e \<Rightarrow> Inl e
               | Inr outp \<Rightarrow> (case snd (accumulate [] outp) of
                                 Inl e \<Rightarrow> Inl e
                               | Inr full_response \<Rightarrow> Inr (f full_response))) = Inl e"
proof (cases "generate_stream be req")
  case (Inl e)
  then show ?thesis by simp
next
  case (Inr outp)
  with assms have "stream_raises outp" by (simp add: aggregator_call_fails_def)
  then obtain e where "snd (accumulate [] outp) = Inl e"
    using accumulate_Inl [of outp "[]"] by blast
  with Inr show ?thesis by simp
qed

text \<open>Every turn, failed or not, ends by setting the stop event and joining the timer thread.\<close>

lemma turn_trace_finally:
  "\<exists>evs. turn_trace (generate_response slot be selected model temperature max_tokens messages) =
            TimerStart # evs @ [StopEventSet, TimerJoin]"
  by (auto simp: generate_response_def Let_def finally_block_def split: prod.splits sum.splits)

section \<open>A concrete turn\<close>

lemma hello_fan_out:
  "snd (fan_out hello_backend temperature max_tokens hello_conversation [''M1'', ''M2''])
     = Inr [''Hi'', ''Hey'']"
  by (simp add: snd_fan_out hello_backend_def hi_hey_def reference_request_def)

lemma hello_generate_stream: "generate_stream hello_backend req = Inr hello_stream"
  by (simp add: hello_backend_def)

lemma select_M1_M2: "select_models length [''M1'', ''M2''] ''M3'' = [''M1'', ''M2'']"
  by (simp add: select_models_def py_list_of_set_def py_set_difference_def py_set_def)

lemma m2_down_fails:
  "reference_call_fails m2_down_backend temperature max_tokens hello_conversation [''M1'', ''M2'']"
  by (simp add: reference_call_fails_def m2_down_backend_def m2_down_def reference_request_def)

lemma m2_down_fan_out:
  "snd (fan_out m2_down_backend temperature max_tokens hello_conversation [''M1'', ''M2''])
     = Inl (CallError ''M2 is down'')"
  by (simp add: snd_fan_out m2_down_backend_def m2_down_def reference_request_def)

lemma broken_stream_fan_out:
  "snd (fan_out broken_stream_backend temperature max_tokens hello_conversation [''M1'', ''M2''])
     = Inr [''Hi'', ''Hey'']"
  by (simp add: snd_fan_out broken_stream_backend_def hi_hey_def reference_request_def)

lemma broken_stream_fails: "aggregator_call_fails broken_stream_backend req"
  by (simp add: aggregator_call_fails_def broken_stream_backend_def broken_stream_def)

lemma broken_stream_accumulate:
  "generate_stream broken_stream_backend req = Inr broken_stream \<and>
   snd (accumulate [] broken_stream) = Inl (CallError ''connection lost'')"
  by (simp add: broken_stream_backend_def broken_stream_def delta_content_def add_str_def)

lemma none_stream_accumulate:
  "generate_stream none_stream_backend req = Inr none_stream \<and>
   snd (accumulate [] none_stream) = Inl TypeError"
  by (simp add: none_stream_backend_def none_stream_def delta_content_def add_str_def)

lemma none_stream_fan_out:
  "snd (fan_out none_stream_backend temperature max_tokens hello_conversation [''M1'', ''M2''])
     = Inr [''Hi'', ''Hey'']"
  by (simp add: snd_fan_out none_stream_backend_def hi_hey_def reference_request_def)

lemma no_choice_accumulate:
  "generate_stream no_choice_backend req = Inr no_choice_stream \<and>
   snd (accumulate [] no_choice_stream) = Inl IndexError"
  by (simp add: no_choice_backend_def no_choice_stream_def delta_content_def)

lemma no_choice_fan_out:
  "snd (fan_out no_choice_backend temperature max_tokens hello_conversation [''M1'', ''M2''])
     = Inr [''Hi'', ''Hey'']"
  by (simp add: snd_fan_out no_choice_backend_def hi_hey_def reference_request_def)

section \<open>The request presented to the aggregator\<close>

lemma sort_key_set_unique:
  assumes "distinct xs" "distinct ys" "set xs = set ys" "inj_on f (set xs)"
  shows "sort_key f xs = sort_key f ys"
proof -
  have "map f (sort_key f xs) = map f (sort_key f ys)"
  proof (rule sorted_distinct_set_unique)
    show "sorted (map f (sort_key f xs))" "sorted (map f (sort_key f ys))"
      by simp_all
    show "distinct (map f (sort_key f xs))"
      using assms(1,4) by (simp add: distinct_map)
    show "distinct (map f (sort_key f ys))"
      using assms(2,3,4) by (simp add: distinct_map)
    show "set (map f (sort_key f xs)) = set (map f (sort_key f ys))"
      using assms(3) by simp
  qed
  moreover have "inj_on f (set (sort_key f xs) \<union> set (sort_key f ys))"
    using assms(3,4) by simp
  ultimately show ?thesis
    by (simp add: inj_on_map_eq_map)
qed

lemma select_models_same_set:
  assumes "set selected1 = set selected2" and "inj_on slot (set selected1)"
  shows "select_models slot selected1 model = select_models slot selected2 model"
proof -
  let ?d1 = "py_set_difference (py_set selected1) (py_set [model])"
  let ?d2 = "py_set_difference (py_set selected2) (py_set [model])"
  have d: "distinct ?d1" "distinct ?d2"
    by (simp_all add: py_set_difference_def py_set_def)
  have s: "set ?d1 = set ?d2" "set ?d1 \<subseteq> set selected1"
    using assms(1) by (auto simp: py_set_difference_def py_set_def)
  from s(2) assms(2) have i: "inj_on slot (set ?d1)"
    by (rule inj_on_subset [rotated])
  have "py_list_of_set slot ?d1 = py_list_of_set slot ?d2"
    unfolding py_list_of_set_def by (rule sort_key_set_unique [OF d s(1) i])
  then show ?thesis
    by (simp add: select_models_def)
qed

lemma mset_select_models:
  assumes "set selected1 = set selected2"
  shows "mset (select_models slot1 selected1 model) = mset (select_models slot2 selected2 model)"
proof -
  have "set (select_models slot1 selected1 model) = set (select_models slot2 selected2 model)"
    using assms by (simp add: set_select_models)
  then show ?thesis
    by (simp add: set_eq_iff_mset_eq_distinct [symmetric] distinct_select_models)
qed

lemma fan_out_Inr_refs:
  assumes "snd (fan_out be temperature max_tokens messages ws) = Inr refs"
  shows "refs = map (\<lambda>m. projr (generate be (reference_request temperature max_tokens messages m))) ws"
proof -
  from assms have "map (\<lambda>m. generate be (reference_request temperature max_tokens messages m)) ws
                     = map Inr refs"
    by (simp add: snd_fan_out collect_Inr_iff)
  then have "map projr (map (\<lambda>m. generate be (reference_request temperature max_tokens messages m)) ws)
               = map projr (map Inr refs)"
    by simp
  then show ?thesis by (simp add: comp_def)
qed

lemma fan_out_fails_set:
  assumes "set ws1 = set ws2"
  shows "(\<exists>e. snd (fan_out be temperature max_tokens messages ws1) = Inl e) \<longleftrightarrow>
         (\<exists>e. snd (fan_out be temperature max_tokens messages ws2) = Inl e)"
  using assms by (simp add: snd_fan_out collect_Inl_iff)

lemma presented_request_eq:
  "presented_request slot be selected model temperature max_tokens messages =
     (case snd (fan_out be temperature max_tokens messages (select_models slot selected model)) of
        Inl e \<Rightarrow> None
      | Inr refs \<Rightarrow> Some (aggregation_request model temperature max_tokens messages refs))"
  by (simp add: presented_request_def split: prod.splits sum.splits)

lemma presented_request_up_to_order:
  assumes "set selected1 = set selected2"
  shows "same_up_to_order
           (presented_request slot1 be selected1 model temperature max_tokens messages)
           (presented_request slot2 be selected2 model temperature max_tokens messages)"
proof -
  let ?ws1 = "select_models slot1 selected1 model"
  let ?ws2 = "select_models slot2 selected2 model"
  let ?f = "\<lambda>m. projr (generate be (reference_request temperature max_tokens messages m))"
  have m: "mset ?ws1 = mset ?ws2"
    using assms by (rule mset_select_models)
  then have s: "set ?ws1 = set ?ws2"
    by (rule mset_eq_setD)
  show ?thesis
  proof (cases "snd (fan_out be temperature max_tokens messages ?ws1)")
    case (Inl e)
    with fan_out_fails_set [OF s, of be temperature max_tokens messages]
    obtain e' where "snd (fan_out be temperature max_tokens messages ?ws2) = Inl e'"
      by blast
    with Inl show ?thesis
      by (simp add: presented_request_eq same_up_to_order_def)
  next
    case (Inr refs1)
    have "\<not> (\<exists>e. snd (fan_out be temperature max_tokens messages ?ws2) = Inl e)"
      using fan_out_fails_set [OF s, of be temperature max_tokens messages] Inr by simp
    then obtain refs2 where r2: "snd (fan_out be temperature max_tokens messages ?ws2) = Inr refs2"
      by (cases "snd (fan_out be temperature max_tokens messages ?ws2)") auto
    have "mset refs1 = image_mset ?f (mset ?ws1)"
      using fan_out_Inr_refs [OF Inr] by simp
    also have "\<dots> = image_mset ?f (mset ?ws2)"
      using m by simp
    also have "\<dots> = mset refs2"
      using fan_out_Inr_refs [OF r2] by simp
    finally show ?thesis
      using Inr r2
      by (simp add: presented_request_eq same_up_to_order_def aggregation_request_def)
  qed
qed

lemma select_short_first:
  "select_models slot_short_first [''Qwen/Qwen2-72B-Instruct'', ''Qwen/Qwen1.5-72B''] ''mistralai/Mixtral-8x22B''
     = [''Qwen/Qwen1.5-72B'', ''Qwen/Qwen2-72B-Instruct'']"
  by (simp add: select_models_def py_list_of_set_def py_set_difference_def py_set_def
      slot_short_first_def)

lemma select_long_first:
  "select_models slot_long_first [''Qwen/Qwen2-72B-Instruct'', ''Qwen/Qwen1.5-72B''] ''mistralai/Mixtral-8x22B''
     = [''Qwen/Qwen2-72B-Instruct'', ''Qwen/Qwen1.5-72B'']"
  by (simp add: select_models_def py_list_of_set_def py_set_difference_def py_set_def
      slot_long_first_def)

lemma echo_fan_out:
  "snd (fan_out echo_backend temperature max_tokens messages ws) =
     Inr (map (\<lambda>m. ''answer of '' @ m) ws)"
  by (simp add: snd_fan_out echo_backend_def echo_def reference_request_def collect_Inr_iff comp_def)

section \<open>The timer thread and the shared value\<close>

lemma written_timer_loop:
  "written (fst (timer_loop start_time obs)) = map (\<lambda>now. now - start_time) (readings obs)"
  by (induction start_time obs rule: timer_loop.induct) (auto split: prod.splits)

lemma sorted_shift:
  fixes xs :: "real list"
  shows "sorted xs \<Longrightarrow> sorted (map (\<lambda>now. now - start_time) xs)"
  by (induction xs) auto

lemma elapsed_time_calls_append [simp]:
  "elapsed_time_calls (xs @ ys) = elapsed_time_calls xs @ elapsed_time_calls ys"
  by (induction xs rule: elapsed_time_calls.induct) simp_all

lemma elapsed_time_calls_accumulate:
  "list_all (\<lambda>c. c = CallGet) (elapsed_time_calls (fst (accumulate acc s)))"
proof (induction s arbitrary: acc)
  case (StreamYield c s)
  show ?case
    by (cases c rule: chunk_cases)
       (simp_all add: accumulate_no_choice accumulate_None accumulate_text StreamYield.IH
          del: accumulate.simps)
qed simp_all

lemma elapsed_time_calls_fan_out:
  "elapsed_time_calls (fst (fan_out be temperature max_tokens messages ws)) = []"
proof -
  have "elapsed_time_calls (concat (map (\<lambda>m. fst (process_fn be temperature max_tokens
               \<lparr>instruction = messages, references = [], row_model = m\<rparr>)) ws)) = []"
    by (induction ws) (simp_all add: process_fn_row split: sum.splits)
  then show ?thesis
    by (simp add: fan_out_def dataset_map_def eval_set_of_rows comp_def)
qed

lemma elapsed_time_calls_try_body:
  "list_all (\<lambda>c. c = CallGet)
     (elapsed_time_calls (fst (try_body be model temperature max_tokens messages ws)))"
proof -
  obtain evs1 r1 where f: "fan_out be temperature max_tokens messages ws = (evs1, r1)"
    by (cases "fan_out be temperature max_tokens messages ws")
  then have c: "elapsed_time_calls evs1 = []"
    using elapsed_time_calls_fan_out [of be temperature max_tokens messages ws] by simp
  show ?thesis
  proof (cases r1)
    case (Inl e)
    with f c show ?thesis by (simp add: try_body_def)
  next
    case (Inr refs)
    let ?req = "aggregation_request model temperature max_tokens messages refs"
    show ?thesis
    proof (cases "generate_stream be ?req")
      case (Inl e)
      with f c Inr show ?thesis by (simp add: try_body_def Let_def)
    next
      case out: (Inr outp)
      obtain evs2 r2 where a: "accumulate [] outp = (evs2, r2)"
        by (cases "accumulate [] outp")
      then have "list_all (\<lambda>c. c = CallGet) (elapsed_time_calls evs2)"
        using elapsed_time_calls_accumulate [of "[]" outp] by simp
      with f c Inr out a show ?thesis
        by (cases r2) (simp_all add: try_body_def Let_def)
    qed
  qed
qed

lemma elapsed_time_calls_turn:
  "list_all (\<lambda>c. c = CallGet)
     (elapsed_time_calls (turn_trace (generate_response slot be selected model temperature max_tokens messages)))"
proof -
  let ?ws = "select_models slot selected model"
  obtain evs r where t: "try_body be model temperature max_tokens messages ?ws = (evs, r)"
    by (cases "try_body be model temperature max_tokens messages ?ws")
  then have "list_all (\<lambda>c. c = CallGet) (elapsed_time_calls evs)"
    using elapsed_time_calls_try_body [of be model temperature max_tokens messages ?ws] by simp
  with t show ?thesis
    by (cases r) (simp_all add: generate_response_def Let_def finally_block_def except_block_def)
qed

text \<open>The timer thread returns exactly when it meets the stop event set.\<close>

lemma timer_loop_returns: "Stopped \<in> set obs \<Longrightarrow> snd (timer_loop start_time obs) = True"
  by (induction start_time obs rule: timer_loop.induct) (auto split: prod.splits)

lemma timer_loop_running: "Stopped \<notin> set obs \<Longrightarrow> snd (timer_loop start_time obs) = False"
  by (induction start_time obs rule: timer_loop.induct) (auto split: prod.splits)

section \<open>Threads calling the shared value\<close>

lemma latest_snoc:
  "latest cur (h @ [(i, a)]) = (case a of Wrote v \<Rightarrow> v | Read v \<Rightarrow> latest cur h)"
  by (induction cur h rule: latest.induct) (simp_all split: access.splits)

lemma reads_latest_snoc:
  "reads_latest cur (h @ [(i, a)]) =
     (reads_latest cur h \<and> (case a of Wrote v \<Rightarrow> True | Read v \<Rightarrow> v = latest cur h))"
  by (induction cur h rule: reads_latest.induct) (auto split: access.splits)

lemma reads_of_snoc:
  "reads_of i (h @ [(j, a)]) =
     reads_of i h @ (case a of Wrote v \<Rightarrow> [] | Read v \<Rightarrow> if j = i then [v] else [])"
  by (induction i h rule: reads_of.induct) (auto split: access.splits)

lemma consistent_start: "consistent v0 (start v0 programs)"
  by (auto simp: consistent_def start_def SharedValue_init_def mutual_exclusion_def inside_def
      returns_reads_def)

lemma consistent_enter:
  assumes "consistent v0 s" "i < length (threads s)" "t = threads s ! i" "position t = Outside"
  shows "consistent v0 (enter i t s)"
proof (cases "lock (cell s)")
  case True
  then show ?thesis using assms(1) by (simp add: enter_def acquire_def)
next
  case False
  with assms(1) have none: "\<And>j. \<not> inside s j"
    by (auto simp: consistent_def mutual_exclusion_def)
  let ?s' = "s\<lparr>cell := (cell s)\<lparr>lock := True\<rparr>, threads := (threads s)[i := t\<lparr>position := Entered\<rparr>]\<rparr>"
  have e: "enter i t s = ?s'"
    using False by (simp add: enter_def acquire_def)
  have in': "inside ?s' j \<longleftrightarrow> j = i" for j
    using none [of j] assms(2) by (auto simp: inside_def nth_list_update)
  have "mutual_exclusion ?s'"
    unfolding mutual_exclusion_def using in' by auto
  moreover have "returns_reads ?s'"
    using assms(1,2,3) by (auto simp: consistent_def returns_reads_def nth_list_update)
  ultimately show ?thesis
    using assms(1) e by (simp add: consistent_def)
qed

lemma inside_update_same:
  assumes "i < length (threads s)" "position (threads s ! i) \<noteq> Outside" "position t' \<noteq> Outside"
    and "threads s' = (threads s)[i := t']"
  shows "inside s' j \<longleftrightarrow> inside s j"
  using assms by (auto simp: inside_def nth_list_update)

lemma consistent_body:
  assumes "consistent v0 s" "i < length (threads s)" "t = threads s ! i" "position t = Entered"
  shows "consistent v0 (body i t c s)"
proof (cases c)
  case (CallSet v)
  let ?s' = "body i t c s"
  have in': "inside ?s' j \<longleftrightarrow> inside s j" for j
    using assms(2,3,4) CallSet by (intro inside_update_same [of i s]) (simp_all add: body_def)
  have "mutual_exclusion ?s'"
    using assms(1) in' CallSet by (simp add: consistent_def mutual_exclusion_def body_def)
  moreover have "returns_reads ?s'"
    using assms(1,2,3) CallSet
    by (auto simp: consistent_def returns_reads_def body_def nth_list_update reads_of_snoc)
  moreover have "reads_latest v0 (history ?s')" "sv_value (cell ?s') = latest v0 (history ?s')"
    using assms(1) CallSet by (simp_all add: consistent_def body_def reads_latest_snoc latest_snoc)
  ultimately show ?thesis by (simp add: consistent_def)
next
  case CallGet
  let ?s' = "body i t c s"
  have in': "inside ?s' j \<longleftrightarrow> inside s j" for j
    using assms(2,3,4) CallGet by (intro inside_update_same [of i s]) (simp_all add: body_def)
  have "mutual_exclusion ?s'"
    using assms(1) in' CallGet by (simp add: consistent_def mutual_exclusion_def body_def)
  moreover have "returns_reads ?s'"
    using assms(1,2,3) CallGet
    by (auto simp: consistent_def returns_reads_def body_def nth_list_update reads_of_snoc)
  moreover have "reads_latest v0 (history ?s')" "sv_value (cell ?s') = latest v0 (history ?s')"
    using assms(1) CallGet by (simp_all add: consistent_def body_def reads_latest_snoc latest_snoc)
  ultimately show ?thesis by (simp add: consistent_def)
qed

lemma consistent_leave:
  assumes "consistent v0 s" "i < length (threads s)" "t = threads s ! i" "position t = Accessed"
  shows "consistent v0 (leave i t rest s)"
proof -
  let ?s' = "leave i t rest s"
  from assms(2,3,4) have i: "inside s i"
    by (simp add: inside_def)
  with assms(1) have only: "\<And>j. inside s j \<Longrightarrow> j = i"
    by (auto simp: consistent_def mutual_exclusion_def)
  have in': "\<not> inside ?s' j" for j
    using only [of j] assms(2) by (auto simp: inside_def leave_def nth_list_update)
  have "mutual_exclusion ?s'"
    unfolding mutual_exclusion_def using in' by (simp add: leave_def release_def)
  moreover have "returns_reads ?s'"
    using assms(1,2,3) by (auto simp: consistent_def returns_reads_def leave_def nth_list_update)
  ultimately show ?thesis
    using assms(1) by (simp add: consistent_def leave_def release_def)
qed

lemma consistent_thread_step: "consistent v0 s \<Longrightarrow> consistent v0 (thread_step i s)"
proof -
  assume a: "consistent v0 s"
  show ?thesis
  proof (cases "length (threads s) \<le> i")
    case True
    with a show ?thesis by (simp add: thread_step_def)
  next
    case False
    then have l: "i < length (threads s)" by simp
    show ?thesis
    proof (cases "calls (threads s ! i)")
      case Nil
      with a False show ?thesis by (simp add: thread_step_def)
    next
      case (Cons c rest)
      show ?thesis
      proof (cases "position (threads s ! i)")
        case Outside
        with consistent_enter [OF a l refl] Cons False show ?thesis
          by (simp add: thread_step_def)
      next
        case Entered
        with consistent_body [OF a l refl] Cons False show ?thesis
          by (simp add: thread_step_def)
      next
        case Accessed
        with consistent_leave [OF a l refl] Cons False show ?thesis
          by (simp add: thread_step_def)
      qed
    qed
  qed
qed

lemma consistent_run: "consistent v0 s \<Longrightarrow> consistent v0 (run schedule s)"
  by (induction schedule arbitrary: s) (simp_all add: consistent_thread_step)

lemma sv_set_free: "\<not> lock sv \<Longrightarrow> sv_set v sv = Some (sv\<lparr>sv_value := v\<rparr>)"
  by (simp add: sv_set_def acquire_def release_def)

lemma sv_get_free: "\<not> lock sv \<Longrightarrow> sv_get sv = Some (sv_value sv, sv)"
  by (simp add: sv_get_def acquire_def release_def)

lemma a_schedule_run:
  "history (run a_schedule (start 0 two_programs)) =
     [(0, Wrote 1), (1, Read 1), (0, Wrote 2), (1, Read 2)] \<and>
   returned (threads (run a_schedule (start 0 two_programs)) ! 1) = [1, 2] \<and>
   cell (run a_schedule (start 0 two_programs)) = \<lparr>sv_value = 2, lock = False\<rparr>"
  by (simp add: a_schedule_def two_programs_def start_def SharedValue_init_def thread_step_def
      enter_def body_def leave_def acquire_def release_def)

section \<open>The timer thread beside the turn's thread\<close>

lemma timer_step_flag [simp]: "m_stop_event (timer_step clock s) = m_stop_event s"
  by (simp add: timer_step_def Let_def split: timer_at.splits)

lemma timer_step_controller [simp]: "m_controller (timer_step clock s) = m_controller s"
  by (simp add: timer_step_def Let_def split: timer_at.splits)

lemma turn_step_calls [simp]: "m_calls (turn_step s) = m_calls s"
  by (simp add: turn_step_def split: list.splits)

lemma turn_step_flag: "m_stop_event s \<Longrightarrow> m_stop_event (turn_step s)"
  by (simp add: turn_step_def split: list.splits)

lemma turn_step_timer:
  "m_timer s \<noteq> NotStarted \<Longrightarrow> m_timer (turn_step s) = m_timer s"
  by (simp add: turn_step_def split: list.splits)

lemma turn_step_timer_AtSet:
  "(m_timer (turn_step s) = AtSet) = (m_timer s = AtSet)"
  by (auto simp: turn_step_def split: list.splits if_splits)

lemma timer_step_pending:
  "m_stop_event s \<Longrightarrow>
     length (m_calls (timer_step clock s)) + (if m_timer (timer_step clock s) = AtSet then 1 else 0)
       = length (m_calls s) + (if m_timer s = AtSet then 1 else 0)"
  by (simp add: timer_step_def Let_def split: timer_at.splits)

lemma run_machine_flag: "m_stop_event s \<Longrightarrow> m_stop_event (run_machine clock schedule s)"
  by (induction clock schedule s rule: run_machine.induct) (simp_all add: turn_step_flag)

lemma run_machine_pending:
  "m_stop_event s \<Longrightarrow>
     length (m_calls (run_machine clock schedule s)) +
       (if m_timer (run_machine clock schedule s) = AtSet then 1 else 0)
       = length (m_calls s) + (if m_timer s = AtSet then 1 else 0)"
proof (induction clock schedule s rule: run_machine.induct)
  case (1 clock s)
  show ?case by simp
next
  case (2 clock schedule s)
  from "2.prems" have "m_stop_event (timer_step clock s)" by simp
  from "2.IH" [OF this] timer_step_pending [OF "2.prems", of clock] show ?case by simp
next
  case (3 clock schedule s)
  from "3.prems" have "m_stop_event (turn_step s)" by (rule turn_step_flag)
  from "3.IH" [OF this] show ?case by (simp add: turn_step_timer_AtSet)
qed

lemma one_write_after_signal:
  "m_stop_event s \<Longrightarrow>
     length (m_calls (run_machine clock schedule s)) \<le> Suc (length (m_calls s))"
  using run_machine_pending [of s clock schedule] by (simp split: if_splits)

lemma returned_stays:
  "m_timer s = Returned \<Longrightarrow>
     m_timer (run_machine clock schedule s) = Returned \<and>
     m_calls (run_machine clock schedule s) = m_calls s"
proof (induction clock schedule s rule: run_machine.induct)
  case (1 clock s)
  then show ?case by simp
next
  case (2 clock schedule s)
  then have "timer_step clock s = s" by (simp add: timer_step_def)
  with 2 show ?case by simp
next
  case (3 clock schedule s)
  then have "m_timer (turn_step s) = Returned" by (simp add: turn_step_timer)
  with "3.IH" show ?case by simp
qed

lemma timer_step_steps_left:
  "m_stop_event s \<Longrightarrow> m_timer s \<noteq> NotStarted \<Longrightarrow>
     m_timer (timer_step clock s) \<noteq> NotStarted \<and>
     steps_left (m_timer (timer_step clock s)) = steps_left (m_timer s) - 1"
  by (simp add: timer_step_def Let_def split: timer_at.splits)

lemma run_machine_steps_left:
  "m_stop_event s \<Longrightarrow> m_timer s \<noteq> NotStarted \<Longrightarrow>
     steps_left (m_timer (run_machine clock schedule s))
       \<le> steps_left (m_timer s) - count_list schedule TimerThread"
proof (induction clock schedule s rule: run_machine.induct)
  case (1 clock s)
  show ?case by simp
next
  case (2 clock schedule s)
  from timer_step_steps_left [OF "2.prems", of clock]
  have n: "m_timer (timer_step clock s) \<noteq> NotStarted"
    and d: "steps_left (m_timer (timer_step clock s)) = steps_left (m_timer s) - 1"
    by simp_all
  from "2.prems"(1) have "m_stop_event (timer_step clock s)" by simp
  from "2.IH" [OF this n] d show ?case by simp
next
  case (3 clock schedule s)
  from "3.prems" have f: "m_stop_event (turn_step s)" and t: "m_timer (turn_step s) = m_timer s"
    by (simp_all add: turn_step_flag turn_step_timer)
  with "3.prems" have "m_timer (turn_step s) \<noteq> NotStarted" by simp
  from "3.IH" [OF f this] t show ?case by simp
qed

lemma returns_within_one_pass:
  assumes "m_stop_event s" "m_timer s \<noteq> NotStarted" "3 \<le> count_list schedule TimerThread"
  shows "m_timer (run_machine clock schedule s) = Returned"
proof -
  have "steps_left (m_timer s) \<le> 3" by (cases "m_timer s") simp_all
  with run_machine_steps_left [OF assms(1,2), of clock schedule] assms(3)
  have "steps_left (m_timer (run_machine clock schedule s)) = 0" by simp
  then show ?thesis by (cases "m_timer (run_machine clock schedule s)") simp_all
qed

lemma follows_start: "follows trace (machine_of trace)"
  by (simp add: follows_def machine_of_def)

lemma follows_timer_step: "follows trace s \<Longrightarrow> follows trace (timer_step clock s)"
  unfolding follows_def
  by (cases "m_timer s") (auto simp: timer_step_def Let_def)

lemma follows_turn_step:
  assumes "follows trace s"
  shows "follows trace (turn_step s)"
proof (cases "m_controller s")
  case Nil
  with assms show ?thesis by (simp add: turn_step_def)
next
  case (Cons ev evs)
  from assms obtain dn where d: "trace = dn @ m_controller s"
    and f: "m_stop_event s \<longleftrightarrow> StopEventSet \<in> set dn"
    and j: "TimerJoin \<in> set dn \<longrightarrow> m_timer s = Returned"
    and t: "m_timer s \<noteq> NotStarted \<longleftrightarrow> TimerStart \<in> set dn"
    unfolding follows_def by blast
  show ?thesis
  proof (cases "ev = TimerJoin \<and> m_timer s \<noteq> Returned")
    case True
    with Cons have "turn_step s = s" by (simp add: turn_step_def)
    with assms show ?thesis by simp
  next
    case False
    have "trace = (dn @ [ev]) @ m_controller (turn_step s)"
      using d Cons False by (auto simp: turn_step_def)
    moreover have "m_stop_event (turn_step s) \<longleftrightarrow> StopEventSet \<in> set (dn @ [ev])"
      using f Cons False by (auto simp: turn_step_def)
    moreover have "TimerJoin \<in> set (dn @ [ev]) \<longrightarrow> m_timer (turn_step s) = Returned"
      using j Cons False by (auto simp: turn_step_def)
    moreover have "m_timer (turn_step s) \<noteq> NotStarted \<longleftrightarrow> TimerStart \<in> set (dn @ [ev])"
      using t Cons False by (auto simp: turn_step_def)
    ultimately show ?thesis unfolding follows_def by blast
  qed
qed

lemma follows_run_machine:
  "follows trace s \<Longrightarrow> follows trace (run_machine clock schedule s)"
  by (induction clock schedule s rule: run_machine.induct)
     (simp_all add: follows_timer_step follows_turn_step)

lemma follows_returned:
  assumes "follows (TimerStart # evs @ [StopEventSet, TimerJoin]) s" and "m_controller s = []"
  shows "m_stop_event s \<and> m_timer s = Returned"
  using assms unfolding follows_def by auto

lemma follows_signalled:
  assumes "follows (TimerStart # evs) s" and "m_stop_event s"
  shows "m_timer s \<noteq> NotStarted"
proof -
  from assms(1) obtain dn where d: "TimerStart # evs = dn @ m_controller s"
    and f: "m_stop_event s \<longleftrightarrow> StopEventSet \<in> set dn"
    and t: "m_timer s \<noteq> NotStarted \<longleftrightarrow> TimerStart \<in> set dn"
    unfolding follows_def by blast
  from f assms(2) have "dn \<noteq> []" by auto
  with d have "TimerStart \<in> set dn" by (cases dn) auto
  with t show ?thesis by simp
qed

lemma timer_loop_snoc_Running:
  "Stopped \<notin> set obs \<Longrightarrow>
     fst (timer_loop st (obs @ [Running now])) = fst (timer_loop st obs) @ [CallSet (now - st)]"
  by (induction st obs rule: timer_loop.induct) (auto split: prod.splits)

lemma timer_loop_snoc_Stopped:
  "fst (timer_loop st (obs @ [Stopped])) = fst (timer_loop st obs)"
  by (induction st obs rule: timer_loop.induct) (auto split: prod.splits)

lemma timer_loop_returned_iff: "snd (timer_loop st obs) \<longleftrightarrow> Stopped \<in> set obs"
  using timer_loop_returns [of obs st] timer_loop_running [of obs st] by auto

lemma runs_timer_start: "runs_timer (machine_of trace)"
  by (simp add: runs_timer_def machine_of_def run_timer_def)

lemma runs_timer_timer_step: "runs_timer s \<Longrightarrow> runs_timer (timer_step clock s)"
  unfolding runs_timer_def run_timer_def Let_def timer_loop_returned_iff
  by (cases "m_timer s")
     (auto simp: timer_step_def Let_def timer_loop_snoc_Running timer_loop_snoc_Stopped)

lemma runs_timer_turn_step: "runs_timer s \<Longrightarrow> runs_timer (turn_step s)"
  unfolding runs_timer_def
  by (auto simp: turn_step_def split: list.splits if_splits)

lemma runs_timer_run_machine: "runs_timer s \<Longrightarrow> runs_timer (run_machine clock schedule s)"
  by (induction clock schedule s rule: run_machine.induct)
     (simp_all add: runs_timer_timer_step runs_timer_turn_step)

lemma run_machine_append:
  "run_machine clock (xs @ ys) s = run_machine clock ys (run_machine clock xs s)"
  by (induction clock xs s rule: run_machine.induct) simp_all

lemma hello_trace:
  "turn_trace (generate_response length hello_backend [''M1'', ''M2''] ''M3'' temperature max_tokens
     hello_conversation) =
   [TimerStart,
    CompletionCall (reference_request temperature max_tokens hello_conversation ''M1''),
    FinishedQuerying ''M1'',
    CompletionCall (reference_request temperature max_tokens hello_conversation ''M2''),
    FinishedQuerying ''M2'',
    Progress, ElapsedTimeCall CallGet, Aggregating,
    StreamCall (aggregation_request ''M3'' temperature max_tokens hello_conversation [''Hi'', ''Hey'']),
    Placeholder ''Hel'', ElapsedTimeCall CallGet,
    Placeholder ''Hello!'', ElapsedTimeCall CallGet,
    Placeholder ''Hello!'', TotalElapsed,
    StopEventSet, TimerJoin]"
  by (simp add: generate_response_def select_M1_M2 try_body_def fan_out_def dataset_map_def
      eval_set_of_rows process_fn_row hello_backend_def hi_hey_def hello_stream_def
      delta_content_def add_str_def reference_request_def finally_block_def)

lemma hello_until_signal:
  "turn_machine second_clock until_signal length hello_backend [''M1'', ''M2''] ''M3''
     temperature max_tokens hello_conversation =
   \<lparr>m_stop_event = True, m_timer = AtSet, m_start = 100, m_taken = 2,
    m_met = [Running 101], m_calls = [CallSet 1], m_controller = [TimerJoin]\<rparr>"
  by (simp add: turn_machine_def hello_trace until_signal_def machine_of_def turn_step_def
      timer_step_def second_clock_def numeral_eq_Suc)

lemma hello_after_signal:
  "run_machine second_clock after_signal
     \<lparr>m_stop_event = True, m_timer = AtSet, m_start = 100, m_taken = 2,
      m_met = [Running 101], m_calls = [CallSet 1], m_controller = [TimerJoin]\<rparr> =
   \<lparr>m_stop_event = True, m_timer = Returned, m_start = 100, m_taken = 3,
    m_met = [Running 101, Running 102, Stopped], m_calls = [CallSet 1, CallSet 2],
    m_controller = []\<rparr>"
  by (simp add: after_signal_def turn_step_def timer_step_def second_clock_def)

section \<open>The session state\<close>

lemma append_message_fields:
  "store_lists (append_message m s) =
     (store_lists s)(ss_messages s := store_lists s (ss_messages s) @ [fresh s])"
  "store_dicts (append_message m s) = (store_dicts s)(fresh s := m)"
  "fresh (append_message m s) = Suc (fresh s)"
  "ss_messages (append_message m s) = ss_messages s"
  "ss_conversations (append_message m s) = ss_conversations s"
  by (simp_all add: append_message_def new_dict_def)

lemma chat_input_first:
  assumes "length (store_lists s (ss_messages s)) = 1"
  shows "chat_input p s =
     (append_message \<lparr>role = ''user'', content = p\<rparr> s)
       \<lparr>store_lists := (store_lists (append_message \<lparr>role = ''user'', content = p\<rparr> s))
           (Suc (fresh s) := store_lists s (ss_messages s) @ [fresh s]),
        fresh := Suc (Suc (fresh s)),
        ss_conversations := ss_conversations s @ [(p, Suc (fresh s))]\<rparr>"
  using assms by (simp add: chat_input_def Let_def append_message_fields new_list_def)

lemma update_reaches_all:
  assumes "update_system_instructions u s = Inr s'"
  shows "update_reaches s s' u c"
proof (cases "store_lists s (ss_messages s)")
  case Nil
  with assms show ?thesis by (simp add: update_system_instructions_def)
next
  case (Cons b rest')
  with assms have s': "s' = s\<lparr>ss_user_system_prompt := u,
                 store_dicts := (store_dicts s)
                   (b := (store_dicts s b)\<lparr>content := combined_prompt u\<rparr>)\<rparr>"
    by (simp add: update_system_instructions_def)
  show ?thesis
    by (cases "store_lists s c") (simp_all add: update_reaches_def Cons s')
qed


lemma first_snapshot:
  assumes "in_use s" and "store_lists s (ss_messages s) = [sys]"
  shows "ss_conversations (chat_input p s) = ss_conversations s @ [(p, Suc (fresh s))]"
    and "Suc (fresh s) \<noteq> ss_messages (chat_input p s)"
    and "store_lists (chat_input p s) (Suc (fresh s)) = [sys, fresh s]"
    and "store_lists (chat_input p s) (ss_messages (chat_input p s)) = [sys, fresh s]"
    and "store_dicts (chat_input p s) = (store_dicts s)(fresh s := \<lparr>role = ''user'', content = p\<rparr>)"
    and "sys \<noteq> fresh s"
proof -
  from assms(2) have l: "length (store_lists s (ss_messages s)) = 1" by simp
  from assms have lt: "ss_messages s < fresh s" "sys < fresh s"
    by (simp_all add: in_use_def)
  show "ss_conversations (chat_input p s) = ss_conversations s @ [(p, Suc (fresh s))]"
    by (simp add: chat_input_first [OF l])
  show "Suc (fresh s) \<noteq> ss_messages (chat_input p s)"
    using lt by (simp add: chat_input_first [OF l] append_message_fields)
  show "store_lists (chat_input p s) (Suc (fresh s)) = [sys, fresh s]"
    using assms(2) by (simp add: chat_input_first [OF l])
  show "store_lists (chat_input p s) (ss_messages (chat_input p s)) = [sys, fresh s]"
    using lt assms(2) by (simp add: chat_input_first [OF l] append_message_fields)
  show "store_dicts (chat_input p s) = (store_dicts s)(fresh s := \<lparr>role = ''user'', content = p\<rparr>)"
    by (simp add: chat_input_first [OF l] append_message_fields)
  show "sys \<noteq> fresh s"
    using lt by simp
qed

lemma first_snapshot_updated:
  assumes "in_use s" and "store_lists s (ss_messages s) = [sys]"
  shows "\<exists>s'. update_system_instructions u (chat_input p s) = Inr s' \<and>
              conversation_at s' (Suc (fresh s)) =
                [(store_dicts s sys)\<lparr>content := combined_prompt u\<rparr>, \<lparr>role = ''user'', content = p\<rparr>]"
  using first_snapshot(3,4,5) [OF assms, of p] first_snapshot(6) [OF assms]
  by (simp add: update_system_instructions_def conversation_at_def)


lemma in_use_init: "in_use init_session"
  by (simp add: in_use_def init_session_def)

lemma in_use_append_message: "in_use s \<Longrightarrow> in_use (append_message m s)"
  by (fastforce simp: in_use_def append_message_fields list_all_iff)

lemma in_use_new_list:
  "in_use s \<Longrightarrow> list_all (\<lambda>a. a < fresh s) l \<Longrightarrow> new_list l s = (c, s2) \<Longrightarrow>
     in_use (s2\<lparr>ss_conversations := ss_conversations s2 @ [(q, c)]\<rparr>)"
  by (fastforce simp: in_use_def new_list_def list_all_iff)

lemma in_use_chat_input: "in_use s \<Longrightarrow> in_use (chat_input p s)"
proof -
  assume a: "in_use s"
  let ?s1 = "append_message \<lparr>role = ''user'', content = p\<rparr> s"
  have 1: "in_use ?s1" using a by (rule in_use_append_message)
  then have 2: "list_all (\<lambda>a. a < fresh ?s1) (store_lists ?s1 (ss_messages ?s1))"
    by (simp add: in_use_def)
  show ?thesis
    using 1 in_use_new_list [OF 1 2]
    by (simp add: chat_input_def Let_def split: prod.splits)
qed

lemma in_use_update:
  "in_use s \<Longrightarrow> update_system_instructions u s = Inr s' \<Longrightarrow> in_use s'"
  by (auto simp: in_use_def update_system_instructions_def split: list.splits)

lemma in_use_start_new:
  "in_use s \<Longrightarrow> start_new_conversation s = Inr s' \<Longrightarrow> in_use s'"
  by (fastforce simp: in_use_def start_new_conversation_def new_dict_def new_list_def
      list_all_iff split: list.splits)

lemma in_use_select: "in_use s \<Longrightarrow> in_use (select_conversation idx s)"
proof (cases "idx < length (ss_conversations s)")
  case False
  assume "in_use s"
  with False show ?thesis by (simp add: select_conversation_def)
next
  case True
  assume a: "in_use s"
  from True have "ss_conversations s ! idx \<in> set (ss_conversations s)" by simp
  with a have "snd (ss_conversations s ! idx) < fresh s \<and>
      list_all (\<lambda>a. a < fresh s) (store_lists s (snd (ss_conversations s ! idx)))"
    by (auto simp: in_use_def list_all_iff)
  with a True show ?thesis
    by (simp add: in_use_def select_conversation_def)
qed

lemma in_use_act: "in_use s \<Longrightarrow> act a s = Inr s' \<Longrightarrow> in_use s'"
  by (cases a)
     (auto simp: in_use_chat_input in_use_append_message in_use_select
        intro: in_use_update in_use_start_new)

lemma in_use_acts: "in_use s \<Longrightarrow> acts as s = Inr s' \<Longrightarrow> in_use s'"
proof (induction as arbitrary: s)
  case Nil
  then show ?case by simp
next
  case (Cons a as)
  then show ?case
    by (auto split: sum.splits dest: in_use_act)
qed

lemma init_live: "store_lists init_session (ss_messages init_session) = [0]"
  by (simp add: init_session_def)

lemma default_not_combined: "default_system_prompt \<noteq> combined_prompt u"
  by (simp add: combined_prompt_def newline_def)

lemma new_conversation_run:
  "acts ask_restart_update init_session = Inr s \<Longrightarrow>
   ss_conversations s = [(''What is MoA?'', 3)] \<and>
   conversation_at s 3 =
     [\<lparr>role = ''system'', content = default_system_prompt\<rparr>,
      \<lparr>role = ''user'', content = ''What is MoA?''\<rparr>] \<and>
   conversation_at s (ss_messages s) =
     [\<lparr>role = ''system'', content = combined_prompt ''Be brief''\<rparr>]"
  by (auto simp: ask_restart_update_def init_session_def chat_input_def append_message_def new_dict_def new_list_def
      start_new_conversation_def update_system_instructions_def conversation_at_def Let_def
      numeral_3_eq_3 numeral_2_eq_2)

lemma new_conversation_run_ok:
  "\<not> isl (acts ask_restart_update init_session)"
  by (simp add: ask_restart_update_def init_session_def chat_input_def append_message_def new_dict_def new_list_def
      start_new_conversation_def update_system_instructions_def Let_def)

lemma start_new_conversation_Inr:
  assumes "start_new_conversation t = Inr t1"
  shows "\<exists>a rest. store_lists t (ss_messages t) = a # rest \<and>
           t1 = t\<lparr>store_dicts := (store_dicts t)
                      (fresh t := \<lparr>role = ''system'', content = content (store_dicts t a)\<rparr>),
                   store_lists := (store_lists t)(Suc (fresh t) := [fresh t]),
                   fresh := Suc (Suc (fresh t)),
                   ss_messages := Suc (fresh t)\<rparr>"
  using assms
  by (cases "store_lists t (ss_messages t)")
     (auto simp: start_new_conversation_def new_dict_def new_list_def)

lemma update_after_start_new:
  assumes "in_use t" and "start_new_conversation t = Inr t1"
    and "update_system_instructions u t1 = Inr t2"
  shows "list_all (\<lambda>(q, c). conversation_at t2 c = conversation_at t c) (ss_conversations t)"
proof -
  from start_new_conversation_Inr [OF assms(2)] obtain a rest where
    t1: "t1 = t\<lparr>store_dicts := (store_dicts t)
                      (fresh t := \<lparr>role = ''system'', content = content (store_dicts t a)\<rparr>),
                   store_lists := (store_lists t)(Suc (fresh t) := [fresh t]),
                   fresh := Suc (Suc (fresh t)),
                   ss_messages := Suc (fresh t)\<rparr>"
    by blast
  with assms(3) have l: "store_lists t2 = (store_lists t)(Suc (fresh t) := [fresh t])"
    and d: "\<And>x. x \<noteq> fresh t \<Longrightarrow> store_dicts t2 x = store_dicts t x"
    by (auto simp: update_system_instructions_def)
  have "conversation_at t2 c = conversation_at t c" if "(q, c) \<in> set (ss_conversations t)" for q c
  proof -
    from that assms(1) have c: "c < fresh t" and e: "\<forall>x \<in> set (store_lists t c). x < fresh t"
      by (auto simp: in_use_def list_all_iff)
    from c l have "store_lists t2 c = store_lists t c" by simp
    moreover from e d have "map (store_dicts t2) (store_lists t c) = map (store_dicts t) (store_lists t c)"
      by (intro map_cong) auto
    ultimately show ?thesis by (simp add: conversation_at_def)
  qed
  then show ?thesis by (auto simp: list_all_iff)
qed

section \<open>The claims about the turn\<close>

text \<open>
  Claim C2: for every successful turn, the content of the assistant message appended to
  the conversation is the concatenation, in arrival order, of all text fragments the
  aggregator's stream yielded: the stream ended without raising, each of its chunks
  carried a text, and the texts are concatenated in the order of the chunks.
\<close>

theorem successful_turn_content:
  assumes "turn_error (generate_response slot be selected model temperature max_tokens messages) = None"
  shows "\<exists>refs outp.
           snd (fan_out be temperature max_tokens messages (select_models slot selected model)) = Inr refs \<and>
           generate_stream be (aggregation_request model temperature max_tokens messages refs) = Inr outp \<and>
           list_all is_text (stream_chunks outp) \<and> \<not> stream_raises outp \<and>
           turn_messages (generate_response slot be selected model temperature max_tokens messages) =
             messages @ [\<lparr>role = ''assistant'',
                          content = concat (map fragment (stream_chunks outp))\<rparr>]"
proof -
  let ?ws = "select_models slot selected model"
  from assms obtain messages' where
    t: "snd (try_body be model temperature max_tokens messages ?ws) = Inr messages'"
    by (auto simp: turn_error_eq split: sum.splits)
  then obtain refs where
    f: "snd (fan_out be temperature max_tokens messages ?ws) = Inr refs"
    by (auto simp: snd_try_body split: sum.splits)
  with t obtain outp where
    g: "generate_stream be (aggregation_request model temperature max_tokens messages refs) = Inr outp"
    by (auto simp: snd_try_body split: sum.splits)
  with t f obtain full where a: "snd (accumulate [] outp) = Inr full"
    and m: "messages' = messages @ [\<lparr>role = ''assistant'', content = full\<rparr>]"
    by (auto simp: snd_try_body split: sum.splits)
  from accumulate_Inr [OF a]
  have "full = concat (map fragment (stream_chunks outp))"
    and "list_all is_text (stream_chunks outp)" and "\<not> stream_raises outp"
    by simp_all
  with t f g m show ?thesis
    by (simp add: turn_messages_eq)
qed

theorem successful_turn_content_witness:
  "turn_error (generate_response length hello_backend [''M1'', ''M2''] ''M3'' 0.5 2048 hello_conversation) = None \<and>
   turn_messages (generate_response length hello_backend [''M1'', ''M2''] ''M3'' 0.5 2048 hello_conversation) =
     hello_conversation @ [\<lparr>role = ''assistant'', content = ''Hello!''\<rparr>]"
proof -
  have acc: "snd (accumulate [] hello_stream) = Inr ''Hello!''"
    by (simp add: hello_stream_def delta_content_def add_str_def)
  have ok: "turn_error (generate_response length hello_backend [''M1'', ''M2''] ''M3'' 0.5 2048 hello_conversation) = None"
    by (simp add: turn_error_eq snd_try_body select_M1_M2 hello_fan_out hello_generate_stream acc)
  from successful_turn_content [OF ok] obtain refs outp where
    g: "generate_stream hello_backend (aggregation_request ''M3'' 0.5 2048 hello_conversation refs) = Inr outp"
    and m: "turn_messages (generate_response length hello_backend [''M1'', ''M2''] ''M3'' 0.5 2048 hello_conversation) =
             hello_conversation @ [\<lparr>role = ''assistant'',
                          content = concat (map fragment (stream_chunks outp))\<rparr>]"
    by blast
  from g have "outp = hello_stream" by (simp add: hello_generate_stream)
  with m ok show ?thesis
    by (simp add: hello_stream_def fragment_def)
qed

text \<open>
  Claim C3: for every turn in which a reference-model call or the aggregator's
  streaming call fails (raises, the latter at the call or in the middle of the stream),
  the turn reports an error and the conversation is as it was: no assistant message is
  appended, in particular none made of the fragments accumulated before the failure.
\<close>

theorem failed_call_no_assistant_message:
  assumes "reference_call_fails be temperature max_tokens messages (select_models slot selected model) \<or>
           (\<exists>refs. snd (fan_out be temperature max_tokens messages (select_models slot selected model)) = Inr refs \<and>
                   aggregator_call_fails be (aggregation_request model temperature max_tokens messages refs))"
  shows "\<exists>e. turn_error (generate_response slot be selected model temperature max_tokens messages) = Some e \<and>
             turn_messages (generate_response slot be selected model temperature max_tokens messages) = messages \<and>
             ErrorNotice (''An error occurred during the generation process: '' @ exn_str e)
               \<in> set (turn_trace (generate_response slot be selected model temperature max_tokens messages))"
proof -
  let ?ws = "select_models slot selected model"
  have "\<exists>e. snd (try_body be model temperature max_tokens messages ?ws) = Inl e"
    using assms
  proof
    assume "reference_call_fails be temperature max_tokens messages ?ws"
    then obtain e where "snd (fan_out be temperature max_tokens messages ?ws) = Inl e"
      by (auto simp: reference_call_fails_iff)
    then show ?thesis by (simp add: snd_try_body)
  next
    assume "\<exists>refs. snd (fan_out be temperature max_tokens messages ?ws) = Inr refs \<and>
                   aggregator_call_fails be (aggregation_request model temperature max_tokens messages refs)"
    then obtain refs where f: "snd (fan_out be temperature max_tokens messages ?ws) = Inr refs"
      and a: "aggregator_call_fails be (aggregation_request model temperature max_tokens messages refs)"
      by blast
    from aggregator_call_fails_D [OF a] f show ?thesis
      by (simp add: snd_try_body)
  qed
  then obtain e where "snd (try_body be model temperature max_tokens messages ?ws) = Inl e" ..
  from failed_turn [OF this] show ?thesis by blast
qed

theorem failed_call_no_assistant_message_witness:
  "reference_call_fails m2_down_backend 0.5 2048 hello_conversation
     (select_models length [''M1'', ''M2''] ''M3'') \<and>
   turn_error (generate_response length m2_down_backend [''M1'', ''M2''] ''M3'' 0.5 2048 hello_conversation)
     = Some (CallError ''M2 is down'') \<and>
   turn_messages (generate_response length m2_down_backend [''M1'', ''M2''] ''M3'' 0.5 2048 hello_conversation)
     = hello_conversation \<and>
   aggregator_call_fails broken_stream_backend
     (aggregation_request ''M3'' 0.5 2048 hello_conversation [''Hi'', ''Hey'']) \<and>
   turn_error (generate_response length broken_stream_backend [''M1'', ''M2''] ''M3'' 0.5 2048 hello_conversation)
     = Some (CallError ''connection lost'') \<and>
   turn_messages (generate_response length broken_stream_backend [''M1'', ''M2''] ''M3'' 0.5 2048 hello_conversation)
     = hello_conversation"
proof -
  have h1: "reference_call_fails m2_down_backend 0.5 2048 hello_conversation
              (select_models length [''M1'', ''M2''] ''M3'')"
    by (simp add: select_M1_M2 m2_down_fails)
  have h2: "snd (fan_out broken_stream_backend 0.5 2048 hello_conversation
                   (select_models length [''M1'', ''M2''] ''M3'')) = Inr [''Hi'', ''Hey''] \<and>
            aggregator_call_fails broken_stream_backend
              (aggregation_request ''M3'' 0.5 2048 hello_conversation [''Hi'', ''Hey''])"
    by (simp add: select_M1_M2 broken_stream_fan_out broken_stream_fails)
  have e1: "turn_error (generate_response length m2_down_backend [''M1'', ''M2''] ''M3'' 0.5 2048 hello_conversation)
              = Some (CallError ''M2 is down'')"
    by (simp add: turn_error_eq snd_try_body select_M1_M2 m2_down_fan_out)
  have e2: "turn_error (generate_response length broken_stream_backend [''M1'', ''M2''] ''M3'' 0.5 2048 hello_conversation)
              = Some (CallError ''connection lost'')"
    by (simp add: turn_error_eq snd_try_body select_M1_M2 broken_stream_fan_out broken_stream_accumulate)
  have m1: "turn_messages (generate_response length m2_down_backend [''M1'', ''M2''] ''M3'' 0.5 2048 hello_conversation)
              = hello_conversation"
    using failed_call_no_assistant_message [of m2_down_backend "0.5" 2048 hello_conversation length "[''M1'', ''M2'']" "''M3''"] h1
    by blast
  have m2: "turn_messages (generate_response length broken_stream_backend [''M1'', ''M2''] ''M3'' 0.5 2048 hello_conversation)
              = hello_conversation"
    using failed_call_no_assistant_message [of broken_stream_backend "0.5" 2048 hello_conversation length "[''M1'', ''M2'']" "''M3''"] h2
    by blast
  from h1 h2 e1 e2 m1 m2 show ?thesis by simp
qed

text \<open>
  Claim C5: in every turn, each model of the working set is issued exactly one
  completion call, with the full conversation as its messages and an empty list of
  references; no other completion call is made (one round of reference generation, and
  no reference model is given another model's output).
\<close>

theorem one_completion_call_per_working_model:
  "filter (\<lambda>r. req_model r = m)
     (completion_calls (turn_trace (generate_response slot be selected model temperature max_tokens messages)))
   = (if m \<in> set (select_models slot selected model)
      then [\<lparr>req_model = m, req_messages = messages, req_references = [],
              req_temperature = temperature, req_max_tokens = max_tokens\<rparr>]
      else [])"
proof -
  let ?ws = "select_models slot selected model"
  have "filter (\<lambda>r. req_model r = m) (map (reference_request temperature max_tokens messages) ?ws)
          = map (reference_request temperature max_tokens messages) (filter (\<lambda>x. x = m) ?ws)"
    by (simp add: filter_map comp_def reference_request_def)
  also have "\<dots> = (if m \<in> set ?ws then [reference_request temperature max_tokens messages m] else [])"
    by (simp add: filter_eq_distinct [OF distinct_select_models])
  finally show ?thesis
    by (simp add: completion_calls_turn reference_request_def)
qed

theorem one_completion_call_per_working_model_witness:
  "filter (\<lambda>r. req_model r = ''M1'')
     (completion_calls (turn_trace (generate_response length hello_backend [''M1'', ''M2''] ''M3'' 0.5 2048 hello_conversation)))
   = [\<lparr>req_model = ''M1'', req_messages = hello_conversation, req_references = [],
        req_temperature = 0.5, req_max_tokens = 2048\<rparr>] \<and>
   filter (\<lambda>r. req_model r = ''M3'')
     (completion_calls (turn_trace (generate_response length hello_backend [''M1'', ''M2''] ''M3'' 0.5 2048 hello_conversation)))
   = []"
  using one_completion_call_per_working_model [of "''M1''" length hello_backend "[''M1'', ''M2'']" "''M3''" "0.5" 2048 hello_conversation]
        one_completion_call_per_working_model [of "''M3''" length hello_backend "[''M1'', ''M2'']" "''M3''" "0.5" 2048 hello_conversation]
  by (simp add: select_M1_M2)

text \<open>
  Claim C6, as stated: two runs with the same conversation, the same selected set and
  the same per-model outputs present the identical request, references in the same
  order. It fails for two runs whose processes enumerate the set of strings in
  different orders: the references are listed in the order of \<^verbatim>\<open>list(set(...))\<close>.
\<close>

theorem presented_request_order_counterexample:
  "presented_request slot_short_first echo_backend
      [''Qwen/Qwen2-72B-Instruct'', ''Qwen/Qwen1.5-72B''] ''mistralai/Mixtral-8x22B'' 0.5 2048 hello_conversation
     = Some (aggregation_request ''mistralai/Mixtral-8x22B'' 0.5 2048 hello_conversation
               [''answer of Qwen/Qwen1.5-72B'', ''answer of Qwen/Qwen2-72B-Instruct'']) \<and>
   presented_request slot_long_first echo_backend
      [''Qwen/Qwen2-72B-Instruct'', ''Qwen/Qwen1.5-72B''] ''mistralai/Mixtral-8x22B'' 0.5 2048 hello_conversation
     = Some (aggregation_request ''mistralai/Mixtral-8x22B'' 0.5 2048 hello_conversation
               [''answer of Qwen/Qwen2-72B-Instruct'', ''answer of Qwen/Qwen1.5-72B'']) \<and>
   presented_request slot_short_first echo_backend
      [''Qwen/Qwen2-72B-Instruct'', ''Qwen/Qwen1.5-72B''] ''mistralai/Mixtral-8x22B'' 0.5 2048 hello_conversation
     \<noteq> presented_request slot_long_first echo_backend
      [''Qwen/Qwen2-72B-Instruct'', ''Qwen/Qwen1.5-72B''] ''mistralai/Mixtral-8x22B'' 0.5 2048 hello_conversation"
  by (simp add: presented_request_eq select_short_first select_long_first echo_fan_out
      aggregation_request_def)

text \<open>
  Claim C6, amended: for every two runs with the same conversation, the same selected
  reference-model set and the same per-model reference outputs, the request presented
  to the aggregator has the same conversation and the same reference outputs up to
  their order; the two requests are identical when both runs enumerate the set in the
  same order (one slot order, without collisions on the selected models).
\<close>

theorem presented_request_determined:
  assumes "set selected1 = set selected2"
  shows "same_up_to_order
           (presented_request slot1 be selected1 model temperature max_tokens messages)
           (presented_request slot2 be selected2 model temperature max_tokens messages) \<and>
         (slot1 = slot2 \<and> inj_on slot1 (set selected1) \<longrightarrow>
            presented_request slot1 be selected1 model temperature max_tokens messages =
            presented_request slot2 be selected2 model temperature max_tokens messages)"
proof
  show "same_up_to_order
           (presented_request slot1 be selected1 model temperature max_tokens messages)
           (presented_request slot2 be selected2 model temperature max_tokens messages)"
    using assms by (rule presented_request_up_to_order)
next
  show "slot1 = slot2 \<and> inj_on slot1 (set selected1) \<longrightarrow>
            presented_request slot1 be selected1 model temperature max_tokens messages =
            presented_request slot2 be selected2 model temperature max_tokens messages"
  proof
    assume a: "slot1 = slot2 \<and> inj_on slot1 (set selected1)"
    then have e: "slot1 = slot2" and i: "inj_on slot1 (set selected1)"
      by blast+
    have "select_models slot1 selected1 model = select_models slot1 selected2 model"
      using assms i by (rule select_models_same_set)
    with e have "select_models slot1 selected1 model = select_models slot2 selected2 model"
      by simp
    then show "presented_request slot1 be selected1 model temperature max_tokens messages =
            presented_request slot2 be selected2 model temperature max_tokens messages"
      by (simp add: presented_request_eq)
  qed
qed

theorem presented_request_determined_witness:
  "set [''Qwen/Qwen2-72B-Instruct'', ''Qwen/Qwen1.5-72B'']
     = set [''Qwen/Qwen1.5-72B'', ''Qwen/Qwen2-72B-Instruct'', ''Qwen/Qwen1.5-72B''] \<and>
   inj_on slot_short_first (set [''Qwen/Qwen2-72B-Instruct'', ''Qwen/Qwen1.5-72B'']) \<and>
   presented_request slot_short_first echo_backend
      [''Qwen/Qwen2-72B-Instruct'', ''Qwen/Qwen1.5-72B''] ''mistralai/Mixtral-8x22B'' 0.5 2048 hello_conversation
     = presented_request slot_short_first echo_backend
      [''Qwen/Qwen1.5-72B'', ''Qwen/Qwen2-72B-Instruct'', ''Qwen/Qwen1.5-72B''] ''mistralai/Mixtral-8x22B'' 0.5 2048 hello_conversation \<and>
   same_up_to_order
     (presented_request slot_short_first echo_backend
        [''Qwen/Qwen2-72B-Instruct'', ''Qwen/Qwen1.5-72B''] ''mistralai/Mixtral-8x22B'' 0.5 2048 hello_conversation)
     (presented_request slot_long_first echo_backend
        [''Qwen/Qwen1.5-72B'', ''Qwen/Qwen2-72B-Instruct'', ''Qwen/Qwen1.5-72B''] ''mistralai/Mixtral-8x22B'' 0.5 2048 hello_conversation)"
proof -
  have s: "set [''Qwen/Qwen2-72B-Instruct'', ''Qwen/Qwen1.5-72B'']
     = set [''Qwen/Qwen1.5-72B'', ''Qwen/Qwen2-72B-Instruct'', ''Qwen/Qwen1.5-72B'']"
    by auto
  have i: "inj_on slot_short_first (set [''Qwen/Qwen2-72B-Instruct'', ''Qwen/Qwen1.5-72B''])"
    by (simp add: slot_short_first_def)
  from presented_request_determined [OF s, of slot_short_first echo_backend
         "''mistralai/Mixtral-8x22B''" "0.5" 2048 hello_conversation slot_short_first] i
  have 1: "presented_request slot_short_first echo_backend
      [''Qwen/Qwen2-72B-Instruct'', ''Qwen/Qwen1.5-72B''] ''mistralai/Mixtral-8x22B'' 0.5 2048 hello_conversation
     = presented_request slot_short_first echo_backend
      [''Qwen/Qwen1.5-72B'', ''Qwen/Qwen2-72B-Instruct'', ''Qwen/Qwen1.5-72B''] ''mistralai/Mixtral-8x22B'' 0.5 2048 hello_conversation"
    by blast
  from presented_request_determined [OF s, of slot_short_first echo_backend
         "''mistralai/Mixtral-8x22B''" "0.5" 2048 hello_conversation slot_long_first]
  have 2: "same_up_to_order
     (presented_request slot_short_first echo_backend
        [''Qwen/Qwen2-72B-Instruct'', ''Qwen/Qwen1.5-72B''] ''mistralai/Mixtral-8x22B'' 0.5 2048 hello_conversation)
     (presented_request slot_long_first echo_backend
        [''Qwen/Qwen1.5-72B'', ''Qwen/Qwen2-72B-Instruct'', ''Qwen/Qwen1.5-72B''] ''mistralai/Mixtral-8x22B'' 0.5 2048 hello_conversation)"
    by blast
  from s i 1 2 show ?thesis by blast
qed

text \<open>
  Claim C7, as stated: the values the timer thread writes over a turn never decrease.
  The thread writes \<^verbatim>\<open>time.time() - start_time\<close>, and \<^verbatim>\<open>time.time()\<close> is the wall
  clock: when the system clock is set back during the turn (here by two seconds), a
  later write is smaller than an earlier one.
\<close>

theorem run_timer_clock_set_back_counterexample:
  "written (fst (run_timer 100 [Running 101, Running 99, Stopped])) = [1, - 1] \<and>
   \<not> sorted (written (fst (run_timer 100 [Running 101, Running 99, Stopped])))"
  by (simp add: run_timer_def)

text \<open>
  Claim C7, amended: when the readings of the clock the timer thread takes over a turn
  never decrease, the sequence of values it writes to the shared value is monotonically
  non-decreasing; and the timer thread is the only writer: every call the turn's own
  thread makes on the shared value is a \<^verbatim>\<open>get\<close>.
\<close>

theorem run_timer_writes_monotone:
  assumes "sorted (readings obs)"
  shows "sorted (written (fst (run_timer first_reading obs))) \<and>
         list_all (\<lambda>c. c = CallGet)
           (elapsed_time_calls (turn_trace
              (generate_response slot be selected model temperature max_tokens messages)))"
  using assms
  by (simp add: run_timer_def written_timer_loop sorted_shift elapsed_time_calls_turn)

theorem run_timer_writes_monotone_witness:
  "sorted (readings [Running 101, Running 102, Stopped]) \<and>
   written (fst (run_timer 100 [Running 101, Running 102, Stopped])) = [1, 2] \<and>
   sorted (written (fst (run_timer 100 [Running 101, Running 102, Stopped]))) \<and>
   list_all (\<lambda>c. c = CallGet)
     (elapsed_time_calls (turn_trace
        (generate_response length hello_backend [''M1'', ''M2''] ''M3'' 0.5 2048 hello_conversation)))"
proof -
  have h: "sorted (readings [Running 101, Running 102, Stopped])"
    by simp
  have w: "written (fst (run_timer 100 [Running 101, Running 102, Stopped])) = [1, 2]"
    by (simp add: run_timer_def)
  from run_timer_writes_monotone [OF h, of 100 length hello_backend "[''M1'', ''M2'']" "''M3''" "0.5" 2048 hello_conversation]
       h w
  show ?thesis by simp
qed

text \<open>
  Claim C8: \<^verbatim>\<open>get()\<close> returns the value of the most recent \<^verbatim>\<open>set()\<close> (the initial
  value when there was none), and \<^verbatim>\<open>set\<close> and \<^verbatim>\<open>get\<close> both run under the one lock.
  Called on a free lock, \<^verbatim>\<open>set\<close> stores its argument and \<^verbatim>\<open>get\<close> returns the stored
  value, both leaving the lock free. For threads that interleave their calls in any
  order: every read returns the latest value written before it, each \<^verbatim>\<open>get\<close> returns
  what it read, the value held is the latest written, at most one thread is inside a
  \<^verbatim>\<open>with\<close> block, and the lock is held exactly then.
\<close>

theorem shared_value_get_latest_set:
  "(\<not> lock sv \<longrightarrow>
      sv_set v sv = Some (sv\<lparr>sv_value := v\<rparr>) \<and>
      sv_get (sv\<lparr>sv_value := v\<rparr>) = Some (v, sv\<lparr>sv_value := v\<rparr>) \<and>
      sv_get sv = Some (sv_value sv, sv)) \<and>
   consistent v0 (run schedule (start v0 programs))"
proof
  show "\<not> lock sv \<longrightarrow>
      sv_set v sv = Some (sv\<lparr>sv_value := v\<rparr>) \<and>
      sv_get (sv\<lparr>sv_value := v\<rparr>) = Some (v, sv\<lparr>sv_value := v\<rparr>) \<and>
      sv_get sv = Some (sv_value sv, sv)"
    by (simp add: sv_set_free sv_get_free)
next
  show "consistent v0 (run schedule (start v0 programs))"
    by (rule consistent_run [OF consistent_start])
qed

theorem shared_value_get_latest_set_witness:
  "\<not> lock (SharedValue_init (0::real)) \<and>
   sv_set 5 (SharedValue_init (0::real)) = Some ((SharedValue_init 0)\<lparr>sv_value := 5\<rparr>) \<and>
   sv_get ((SharedValue_init (0::real))\<lparr>sv_value := 5\<rparr>) = Some (5, (SharedValue_init 0)\<lparr>sv_value := 5\<rparr>) \<and>
   sv_get (SharedValue_init (0::real)) = Some (0, SharedValue_init 0) \<and>
   history (run a_schedule (start 0 two_programs)) =
     [(0, Wrote 1), (1, Read 1), (0, Wrote 2), (1, Read 2)] \<and>
   returned (threads (run a_schedule (start 0 two_programs)) ! 1) = [1, 2] \<and>
   consistent 0 (run a_schedule (start 0 two_programs))"
proof -
  have f: "\<not> lock (SharedValue_init (0::real))"
    by (simp add: SharedValue_init_def)
  from shared_value_get_latest_set [of "SharedValue_init (0::real)" 5 0 a_schedule two_programs] f
       a_schedule_run
  show ?thesis by (simp add: SharedValue_init_def)
qed

text \<open>
  Claim C9, as stated: in any turn in which some chunk's content is \<^verbatim>\<open>None\<close>, the
  concatenation raises a \<^verbatim>\<open>TypeError\<close>. It fails when a chunk before it already stops
  the loop: a chunk with no choice raises the \<^verbatim>\<open>IndexError\<close> of \<^verbatim>\<open>choices[0]\<close>, and
  the chunk with the content \<^verbatim>\<open>None\<close> is never concatenated. The turn fails all the
  same.
\<close>

theorem none_after_no_choice_counterexample:
  "Chunk [None] \<in> set (stream_chunks no_choice_stream) \<and> content_is_None (Chunk [None]) \<and>
   snd (fan_out no_choice_backend 0.5 2048 hello_conversation
          (select_models length [''M1'', ''M2''] ''M3'')) = Inr [''Hi'', ''Hey''] \<and>
   generate_stream no_choice_backend
     (aggregation_request ''M3'' 0.5 2048 hello_conversation [''Hi'', ''Hey'']) = Inr no_choice_stream \<and>
   turn_error (generate_response length no_choice_backend [''M1'', ''M2''] ''M3'' 0.5 2048 hello_conversation)
     = Some IndexError \<and>
   turn_error (generate_response length no_choice_backend [''M1'', ''M2''] ''M3'' 0.5 2048 hello_conversation)
     \<noteq> Some TypeError"
proof -
  have "Chunk [None] \<in> set (stream_chunks no_choice_stream) \<and> content_is_None (Chunk [None])"
    by (simp add: no_choice_stream_def content_is_None_def)
  moreover have "turn_error (generate_response length no_choice_backend [''M1'', ''M2''] ''M3'' 0.5 2048
                   hello_conversation) = Some IndexError"
    by (simp add: turn_error_eq snd_try_body select_M1_M2 no_choice_fan_out no_choice_accumulate)
  ultimately show ?thesis
    by (simp add: select_M1_M2 no_choice_fan_out no_choice_accumulate)
qed

text \<open>
  Claim C9, amended: the streaming loop takes every chunk to carry a text. In any turn
  whose stream yields a chunk with content \<^verbatim>\<open>None\<close>, the turn ends as a reported
  failure, caught by the turn's error handler, with no assistant message appended (no
  partial answer); when every chunk before it carried a text, so that the loop reaches
  it, the error is the \<^verbatim>\<open>TypeError\<close> of the string concatenation.
\<close>

theorem none_content_fails_turn:
  assumes "snd (fan_out be temperature max_tokens messages (select_models slot selected model)) = Inr refs"
    and "generate_stream be (aggregation_request model temperature max_tokens messages refs) = Inr outp"
    and "c \<in> set (stream_chunks outp)" and "content_is_None c"
  shows "\<exists>e. turn_error (generate_response slot be selected model temperature max_tokens messages) = Some e \<and>
             turn_messages (generate_response slot be selected model temperature max_tokens messages) = messages \<and>
             ErrorNotice (''An error occurred during the generation process: '' @ exn_str e)
               \<in> set (turn_trace (generate_response slot be selected model temperature max_tokens messages)) \<and>
             ((\<exists>pre post. stream_chunks outp = pre @ c # post \<and> list_all is_text pre) \<longrightarrow> e = TypeError)"
proof -
  let ?ws = "select_models slot selected model"
  from assms(3,4) have "\<not> list_all is_text (stream_chunks outp)"
    using content_is_None_not_text by (auto simp: list_all_iff)
  then obtain e where a: "snd (accumulate [] outp) = Inl e"
    using accumulate_Inl [of outp "[]"] by blast
  with assms(1,2) have t: "snd (try_body be model temperature max_tokens messages ?ws) = Inl e"
    by (simp add: snd_try_body)
  have "e = TypeError" if "\<exists>pre post. stream_chunks outp = pre @ c # post \<and> list_all is_text pre"
  proof -
    from that obtain pre post where "stream_chunks outp = pre @ c # post" "list_all is_text pre"
      by blast
    from accumulate_first_None [OF this assms(4), of "[]"] a show ?thesis by simp
  qed
  with failed_turn [OF t] show ?thesis by blast
qed

theorem none_content_fails_turn_witness:
  "snd (fan_out none_stream_backend 0.5 2048 hello_conversation (select_models length [''M1'', ''M2''] ''M3''))
     = Inr [''Hi'', ''Hey''] \<and>
   generate_stream none_stream_backend (aggregation_request ''M3'' 0.5 2048 hello_conversation [''Hi'', ''Hey''])
     = Inr none_stream \<and>
   Chunk [None] \<in> set (stream_chunks none_stream) \<and> content_is_None (Chunk [None]) \<and>
   stream_chunks none_stream = [Chunk [Some ''Hel'']] @ Chunk [None] # [] \<and>
   list_all is_text [Chunk [Some ''Hel'']] \<and>
   turn_error (generate_response length none_stream_backend [''M1'', ''M2''] ''M3'' 0.5 2048 hello_conversation)
     = Some TypeError \<and>
   turn_messages (generate_response length none_stream_backend [''M1'', ''M2''] ''M3'' 0.5 2048 hello_conversation)
     = hello_conversation"
proof -
  have h1: "snd (fan_out none_stream_backend 0.5 2048 hello_conversation
                   (select_models length [''M1'', ''M2''] ''M3'')) = Inr [''Hi'', ''Hey'']"
    by (simp add: select_M1_M2 none_stream_fan_out)
  have h2: "generate_stream none_stream_backend
              (aggregation_request ''M3'' 0.5 2048 hello_conversation [''Hi'', ''Hey'']) = Inr none_stream"
    by (simp add: none_stream_accumulate)
  have h3: "Chunk [None] \<in> set (stream_chunks none_stream)"
    by (simp add: none_stream_def)
  have h4: "content_is_None (Chunk [None])"
    by (simp add: content_is_None_def)
  have h5: "stream_chunks none_stream = [Chunk [Some ''Hel'']] @ Chunk [None] # []"
    by (simp add: none_stream_def)
  have h6: "list_all is_text [Chunk [Some ''Hel'']]"
    by (simp add: is_text_def)
  from none_content_fails_turn [OF h1 h2 h3 h4] h5 h6
  have "turn_error (generate_response length none_stream_backend [''M1'', ''M2''] ''M3'' 0.5 2048 hello_conversation)
          = Some TypeError \<and>
        turn_messages (generate_response length none_stream_backend [''M1'', ''M2''] ''M3'' 0.5 2048 hello_conversation)
          = hello_conversation"
    by blast
  with h1 h2 h3 h4 h5 h6 show ?thesis by blast
qed

text \<open>
  Claim C10, as stated: an update of the system instructions changes the system message
  inside every conversation saved before in the session. It fails for a conversation
  saved before \<^verbatim>\<open>Start New Conversation\<close>: that button gives the live conversation a
  new system message dict, so the saved one keeps its own, with the old content.
\<close>

theorem old_snapshot_unchanged_counterexample:
  "\<not> isl (acts ask_restart_update init_session) \<and>
   ss_conversations (projr (acts ask_restart_update init_session))
     = [(''What is MoA?'', 3)] \<and>
   conversation_at (projr (acts ask_restart_update init_session)) 3
     = [\<lparr>role = ''system'', content = default_system_prompt\<rparr>,
        \<lparr>role = ''user'', content = ''What is MoA?''\<rparr>] \<and>
   default_system_prompt \<noteq> combined_prompt ''Be brief''"
proof -
  obtain s where s: "acts ask_restart_update init_session = Inr s"
    using new_conversation_run_ok by (cases "acts ask_restart_update init_session") simp_all
  from new_conversation_run [OF s] s default_not_combined show ?thesis
    by simp
qed

text \<open>
  Claim C10, amended: the snapshot stored in the previous-conversations list at the
  first user message is a shallow copy, a new list that shares the message objects with
  the live conversation, so an in-place update of the system message content that
  follows also changes the system message inside that snapshot. In any state, after an
  update the system message of a saved snapshot has the new content when it is the
  object at the head of the live conversation, and its old content when it is another
  object. An update made right after \<^verbatim>\<open>Start New Conversation\<close> leaves every saved
  snapshot as it was. (The condition \<open>in_use\<close>, every address in use lying below the
  next fresh one, holds in every state the actions reach from the initial state.)
\<close>

theorem first_snapshot_shares_messages:
  "(in_use s \<and> store_lists s (ss_messages s) = [sys] \<longrightarrow>
      (\<exists>c. ss_conversations (chat_input p s) = ss_conversations s @ [(p, c)] \<and>
           c \<noteq> ss_messages (chat_input p s) \<and>
           store_lists (chat_input p s) c =
             store_lists (chat_input p s) (ss_messages (chat_input p s)) \<and>
           (\<exists>s'. update_system_instructions u (chat_input p s) = Inr s' \<and>
                 conversation_at s' c =
                   [(store_dicts s sys)\<lparr>content := combined_prompt u\<rparr>,
                    \<lparr>role = ''user'', content = p\<rparr>]))) \<and>
   (update_system_instructions u t = Inr t' \<longrightarrow>
      list_all (\<lambda>(q, c). update_reaches t t' u c) (ss_conversations t)) \<and>
   (in_use w \<and> start_new_conversation w = Inr w1 \<and> update_system_instructions u w1 = Inr w2 \<longrightarrow>
      list_all (\<lambda>(q, c). conversation_at w2 c = conversation_at w c) (ss_conversations w))"
proof (intro conjI impI)
  assume a: "in_use s \<and> store_lists s (ss_messages s) = [sys]"
  then have i: "in_use s" and l: "store_lists s (ss_messages s) = [sys]"
    by blast+
  from first_snapshot(1,2,3,4) [OF i l, of p] first_snapshot_updated [OF i l, of u p]
  show "\<exists>c. ss_conversations (chat_input p s) = ss_conversations s @ [(p, c)] \<and>
           c \<noteq> ss_messages (chat_input p s) \<and>
           store_lists (chat_input p s) c =
             store_lists (chat_input p s) (ss_messages (chat_input p s)) \<and>
           (\<exists>s'. update_system_instructions u (chat_input p s) = Inr s' \<and>
                 conversation_at s' c =
                   [(store_dicts s sys)\<lparr>content := combined_prompt u\<rparr>,
                    \<lparr>role = ''user'', content = p\<rparr>])"
    by (intro exI [of _ "Suc (fresh s)"]) simp
next
  assume "update_system_instructions u t = Inr t'"
  then show "list_all (\<lambda>(q, c). update_reaches t t' u c) (ss_conversations t)"
    by (auto simp: list_all_iff intro: update_reaches_all)
next
  assume "in_use w \<and> start_new_conversation w = Inr w1 \<and> update_system_instructions u w1 = Inr w2"
  then show "list_all (\<lambda>(q, c). conversation_at w2 c = conversation_at w c) (ss_conversations w)"
    using update_after_start_new [of w w1 u w2] by blast
qed

theorem first_snapshot_shares_messages_witness:
  "in_use init_session \<and> store_lists init_session (ss_messages init_session) = [0] \<and>
   ss_conversations (chat_input ''What is MoA?'' init_session) = [(''What is MoA?'', 3)] \<and>
   \<not> isl (update_system_instructions ''Be brief'' (chat_input ''What is MoA?'' init_session)) \<and>
   conversation_at
     (projr (update_system_instructions ''Be brief'' (chat_input ''What is MoA?'' init_session))) 3
     = [\<lparr>role = ''system'', content = combined_prompt ''Be brief''\<rparr>,
        \<lparr>role = ''user'', content = ''What is MoA?''\<rparr>] \<and>
   list_all (\<lambda>(q, c). update_reaches (chat_input ''What is MoA?'' init_session)
       (projr (update_system_instructions ''Be brief'' (chat_input ''What is MoA?'' init_session)))
       ''Be brief'' c)
     (ss_conversations (chat_input ''What is MoA?'' init_session)) \<and>
   in_use (chat_input ''What is MoA?'' init_session) \<and>
   \<not> isl (start_new_conversation (chat_input ''What is MoA?'' init_session)) \<and>
   \<not> isl (update_system_instructions ''Be brief''
            (projr (start_new_conversation (chat_input ''What is MoA?'' init_session)))) \<and>
   list_all (\<lambda>(q, c).
       conversation_at
         (projr (update_system_instructions ''Be brief''
            (projr (start_new_conversation (chat_input ''What is MoA?'' init_session))))) c
       = conversation_at (chat_input ''What is MoA?'' init_session) c)
     (ss_conversations (chat_input ''What is MoA?'' init_session))"
proof -
  let ?t = "chat_input ''What is MoA?'' init_session"
  let ?t' = "projr (update_system_instructions ''Be brief'' ?t)"
  let ?w1 = "projr (start_new_conversation ?t)"
  let ?w2 = "projr (update_system_instructions ''Be brief'' ?w1)"
  note th = first_snapshot_shares_messages
              [of init_session 0 "''What is MoA?''" "''Be brief''" ?t ?t' ?t ?w1 ?w2]
  have i: "in_use init_session" by (rule in_use_init)
  have l: "store_lists init_session (ss_messages init_session) = [0]" by (rule init_live)
  from th i l obtain c s' where
    c: "ss_conversations ?t = ss_conversations init_session @ [(''What is MoA?'', c)]"
    and u: "update_system_instructions ''Be brief'' ?t = Inr s'"
    and m: "conversation_at s' c =
              [(store_dicts init_session 0)\<lparr>content := combined_prompt ''Be brief''\<rparr>,
               \<lparr>role = ''user'', content = ''What is MoA?''\<rparr>]"
    by blast
  from c first_snapshot(1) [OF i l, of "''What is MoA?''"] have c3: "c = 3"
    by (simp add: init_session_def)
  from u have p: "?t' = s'" and ok: "\<not> isl (update_system_instructions ''Be brief'' ?t)"
    by simp_all
  from ok have "update_system_instructions ''Be brief'' ?t = Inr ?t'"
    by (cases "update_system_instructions ''Be brief'' ?t") simp_all
  with th have r: "list_all (\<lambda>(q, c). update_reaches ?t ?t' ''Be brief'' c) (ss_conversations ?t)"
    by blast
  have it: "in_use ?t" using i by (rule in_use_chat_input)
  have lt: "store_lists ?t (ss_messages ?t) = [0, fresh init_session]"
    by (rule first_snapshot(4) [OF i l])
  then have ok1: "\<not> isl (start_new_conversation ?t)"
    by (simp add: start_new_conversation_def new_dict_def new_list_def)
  then have e1: "start_new_conversation ?t = Inr ?w1"
    by (cases "start_new_conversation ?t") simp_all
  from lt have ok2: "\<not> isl (update_system_instructions ''Be brief'' ?w1)"
    by (simp add: start_new_conversation_def new_dict_def new_list_def
        update_system_instructions_def)
  then have e2: "update_system_instructions ''Be brief'' ?w1 = Inr ?w2"
    by (cases "update_system_instructions ''Be brief'' ?w1") simp_all
  from th it e1 e2
  have r3: "list_all (\<lambda>(q, c). conversation_at ?w2 c = conversation_at ?t c) (ss_conversations ?t)"
    by blast
  from m c3 p have "conversation_at ?t' 3
     = [\<lparr>role = ''system'', content = combined_prompt ''Be brief''\<rparr>,
        \<lparr>role = ''user'', content = ''What is MoA?''\<rparr>]"
    by (simp add: init_session_def)
  with i l c c3 ok r it ok1 ok2 r3 show ?thesis
    by (simp add: init_session_def)
qed

text \<open>
  Claim C4: on every exit path of a turn, after a success or a failure, the turn's
  thread sets the stop event and joins the timer thread before it returns: its trace
  ends with these two events, and when it has made all its events the event is set and
  the timer thread has returned. From then on (after the join) the timer thread makes
  no further call on the shared value. Once the event is set, the timer thread returns
  within the pass of the loop it is in, that is within one polling interval: after at
  most three steps of its own (set, sleep, test), and with at most one more write.
  All of it for every schedule of the two threads and every clock; the timer thread of
  the machine does what \<open>run_timer\<close> does on the observations it has met.
\<close>

theorem timer_cancelled_and_joined:
  "(\<exists>evs. turn_trace (generate_response slot be selected model temperature max_tokens messages) =
            TimerStart # evs @ [StopEventSet, TimerJoin]) \<and>
   runs_timer (turn_machine clock schedule slot be selected model temperature max_tokens messages) \<and>
   (m_controller (turn_machine clock schedule slot be selected model temperature max_tokens messages) = [] \<longrightarrow>
      m_stop_event (turn_machine clock schedule slot be selected model temperature max_tokens messages) \<and>
      m_timer (turn_machine clock schedule slot be selected model temperature max_tokens messages) = Returned \<and>
      m_calls (run_machine clock later
                 (turn_machine clock schedule slot be selected model temperature max_tokens messages)) =
        m_calls (turn_machine clock schedule slot be selected model temperature max_tokens messages)) \<and>
   (m_stop_event (turn_machine clock schedule slot be selected model temperature max_tokens messages) \<longrightarrow>
      length (m_calls (run_machine clock later
                 (turn_machine clock schedule slot be selected model temperature max_tokens messages)))
        \<le> Suc (length (m_calls
                 (turn_machine clock schedule slot be selected model temperature max_tokens messages))) \<and>
      (3 \<le> count_list later TimerThread \<longrightarrow>
         m_timer (run_machine clock later
                 (turn_machine clock schedule slot be selected model temperature max_tokens messages))
           = Returned))"
proof -
  let ?tr = "turn_trace (generate_response slot be selected model temperature max_tokens messages)"
  let ?s = "turn_machine clock schedule slot be selected model temperature max_tokens messages"
  obtain evs where tr: "?tr = TimerStart # evs @ [StopEventSet, TimerJoin]"
    using turn_trace_finally by blast
  have f: "follows ?tr ?s"
    unfolding turn_machine_def by (rule follows_run_machine [OF follows_start])
  have r: "runs_timer ?s"
    unfolding turn_machine_def by (rule runs_timer_run_machine [OF runs_timer_start])
  have j: "m_stop_event ?s \<and> m_timer ?s = Returned \<and> m_calls (run_machine clock later ?s) = m_calls ?s"
    if "m_controller ?s = []"
  proof -
    from f tr that have "m_stop_event ?s \<and> m_timer ?s = Returned"
      using follows_returned [of evs ?s] by simp
    with returned_stays [of ?s clock later] show ?thesis by simp
  qed
  have c: "length (m_calls (run_machine clock later ?s)) \<le> Suc (length (m_calls ?s)) \<and>
           (3 \<le> count_list later TimerThread \<longrightarrow> m_timer (run_machine clock later ?s) = Returned)"
    if "m_stop_event ?s"
  proof -
    from f tr that have "m_timer ?s \<noteq> NotStarted"
      using follows_signalled [of "evs @ [StopEventSet, TimerJoin]" ?s] by simp
    with that one_write_after_signal [OF that, of clock later]
         returns_within_one_pass [of ?s later clock]
    show ?thesis by blast
  qed
  from tr r j c show ?thesis by blast
qed

theorem timer_cancelled_and_joined_witness:
  "m_stop_event (turn_machine second_clock until_signal length hello_backend [''M1'', ''M2''] ''M3''
     0.5 2048 hello_conversation) \<and>
   m_calls (turn_machine second_clock until_signal length hello_backend [''M1'', ''M2''] ''M3''
     0.5 2048 hello_conversation) = [CallSet 1] \<and>
   3 \<le> count_list after_signal TimerThread \<and>
   m_calls (run_machine second_clock after_signal
      (turn_machine second_clock until_signal length hello_backend [''M1'', ''M2''] ''M3''
         0.5 2048 hello_conversation)) = [CallSet 1, CallSet 2] \<and>
   m_timer (run_machine second_clock after_signal
      (turn_machine second_clock until_signal length hello_backend [''M1'', ''M2''] ''M3''
         0.5 2048 hello_conversation)) = Returned \<and>
   m_controller (turn_machine second_clock (until_signal @ after_signal) length hello_backend
      [''M1'', ''M2''] ''M3'' 0.5 2048 hello_conversation) = [] \<and>
   m_calls (run_machine second_clock [TimerThread, TimerThread, TurnThread]
      (turn_machine second_clock (until_signal @ after_signal) length hello_backend
         [''M1'', ''M2''] ''M3'' 0.5 2048 hello_conversation)) = [CallSet 1, CallSet 2]"
proof -
  let ?s1 = "turn_machine second_clock until_signal length hello_backend [''M1'', ''M2''] ''M3''
     0.5 2048 hello_conversation"
  let ?s2 = "turn_machine second_clock (until_signal @ after_signal) length hello_backend
      [''M1'', ''M2''] ''M3'' 0.5 2048 hello_conversation"
  have s2: "?s2 = run_machine second_clock after_signal ?s1"
    by (simp add: turn_machine_def run_machine_append)
  have f: "m_stop_event ?s1" and c1: "m_calls ?s1 = [CallSet 1]"
    by (simp_all add: hello_until_signal)
  have n: "3 \<le> count_list after_signal TimerThread"
    by (simp add: after_signal_def)
  have c2: "m_calls (run_machine second_clock after_signal ?s1) = [CallSet 1, CallSet 2]"
    by (simp add: hello_until_signal hello_after_signal)
  have d': "m_controller (run_machine second_clock after_signal ?s1) = []"
    by (simp add: hello_until_signal hello_after_signal)
  have d: "m_controller ?s2 = []"
    unfolding s2 by (rule d')
  from timer_cancelled_and_joined [of length hello_backend "[''M1'', ''M2'']" "''M3''" "0.5" 2048
         hello_conversation second_clock until_signal after_signal] f n
  have r: "m_timer (run_machine second_clock after_signal ?s1) = Returned"
    by blast
  from timer_cancelled_and_joined [of length hello_backend "[''M1'', ''M2'']" "''M3''" "0.5" 2048
         hello_conversation second_clock "until_signal @ after_signal"
         "[TimerThread, TimerThread, TurnThread]"] d
  have "m_calls (run_machine second_clock [TimerThread, TimerThread, TurnThread] ?s2) = m_calls ?s2"
    by blast
  also have "\<dots> = [CallSet 1, CallSet 2]"
    unfolding s2 by (rule c2)
  finally have l: "m_calls (run_machine second_clock [TimerThread, TimerThread, TurnThread] ?s2)
                        = [CallSet 1, CallSet 2]" .
  from f c1 n c2 r d l show ?thesis by blast
qed

end
